theory Spec2Isabelle
  imports Main
begin

section \<open>JavaScript values used by \<^verbatim>\<open>server.js\<close>\<close>

text \<open>
  Strings are \<^typ>\<open>string\<close>. A value that may be \<^verbatim>\<open>undefined\<close>, \<^verbatim>\<open>null\<close> or a string
  is a \<^typ>\<open>string option\<close> (\<open>None\<close> for both \<^verbatim>\<open>undefined\<close> and \<^verbatim>\<open>null\<close>).
  \<open>toLowerCase\<close> lowers the letters A to Z and \<open>trim\<close> strips the ASCII white space
  (tab, line feed, vertical tab, form feed, carriage return, space); the model agrees
  with JavaScript on ASCII text. Times are the integers \<^verbatim>\<open>Date.now()\<close> returns.
\<close>

type_synonym jstring = "string option"

fun truthy :: "jstring \<Rightarrow> bool" where
  "truthy None = False"
| "truthy (Some s) = (s \<noteq> [])"

definition lowerChar :: "char \<Rightarrow> char" where
  "lowerChar c =
     (let n = (of_char c :: nat) in if 65 \<le> n \<and> n \<le> 90 then char_of (n + 32) else c)"

definition toLowerCase :: "string \<Rightarrow> string" where
  "toLowerCase s = map lowerChar s"

text \<open>\<^verbatim>\<open>s.includes(sub)\<close>: \<open>sub\<close> occurs in \<open>s\<close> as a contiguous substring.\<close>

fun includes_str :: "string \<Rightarrow> string \<Rightarrow> bool" where
  "includes_str [] sub = (sub = [])"
| "includes_str (c # cs) sub = (take (length sub) (c # cs) = sub \<or> includes_str cs sub)"

definition isSpace :: "char \<Rightarrow> bool" where
  "isSpace c = (c \<in> set [CHR 0x09, CHR 0x0A, CHR 0x0B, CHR 0x0C, CHR 0x0D, CHR '' ''])"

definition trim :: "string \<Rightarrow> string" where
  "trim s = rev (dropWhile isSpace (rev (dropWhile isSpace s)))"

text \<open>\<^verbatim>\<open>xs.join(sep)\<close> on an array of strings.\<close>

fun join :: "string \<Rightarrow> string list \<Rightarrow> string" where
  "join sep [] = []"
| "join sep [x] = x"
| "join sep (x # y # ys) = x @ sep @ join sep (y # ys)"

section \<open>Data of the upstream provider\<close>

text \<open>
  An element of the search result array (\<open>None\<close> is a \<^verbatim>\<open>null\<close> element). The fields
  \<^verbatim>\<open>id\<close> and \<^verbatim>\<open>name\<close> are \<open>res_id\<close> and \<open>res_name\<close>.
\<close>

record search_result =
  res_id :: string
  res_name :: string
  thumbnail :: jstring
  brand :: jstring

text \<open>
  The value of a specification entry: absent, a string, or an array of strings.
  Only the empty string and the absent value are falsy; every array is truthy.
\<close>

datatype spec_value = VAbsent | VStr string | VArr "string list"

fun truthy_value :: "spec_value \<Rightarrow> bool" where
  "truthy_value VAbsent = False"
| "truthy_value (VStr s) = (s \<noteq> [])"
| "truthy_value (VArr xs) = True"

record spec_entry =
  spec_name :: jstring
  spec_val :: spec_value

text \<open>
  A section: \<open>specifications\<close> is \<open>None\<close> when it is not an array; an element of the
  array is \<open>None\<close> when it is \<^verbatim>\<open>null\<close>.
\<close>

record spec_section =
  specifications :: "spec_entry option list option"

record device =
  dev_name :: jstring
  detailSpec :: "spec_section option list option"

text \<open>The error object: \<^verbatim>\<open>err.response.status\<close>, \<^verbatim>\<open>err.code\<close>, \<^verbatim>\<open>err.message\<close>.\<close>

record js_error =
  err_status :: "nat option"
  err_code :: jstring
  err_message :: string

text \<open>
  The library \<^verbatim>\<open>gsmarena-api\<close> is not part of the repository: it is a parameter. Each
  operation either throws (\<open>Inl\<close>) or returns. What \<^verbatim>\<open>search.search\<close> returns is
  \<open>None\<close> when it is not an array.
\<close>

record upstream =
  search_search :: "jstring \<Rightarrow> js_error + search_result option list option"
  catalog_getDevice :: "string \<Rightarrow> js_error + device"

text \<open>The upstream calls a handler makes, in order.\<close>

datatype upstream_call = Search jstring | GetDevice string

section \<open>State of the process\<close>

datatype message_kind = MSG_NOT_FOUND | MSG_NO_SIM_DATA | MSG_SUPPORTS_ESIM | MSG_NO_EVIDENCE

text \<open>
  The answer payload. A field that is \<^verbatim>\<open>null\<close> or not set is \<open>None\<close>. The localized
  message texts are not modelled: \<open>message\<close> says which of the four it is.
\<close>

record payload =
  found :: bool
  deviceName :: jstring
  deviceId :: jstring
  simRaw :: jstring
  supportsEsim :: "bool option"
  message :: message_kind

record state =
  cache :: "string \<rightharpoonup> payload"
  lastCallTs :: int
  remoteBlockedUntil :: int

definition MIN_INTERVAL_MS :: int where
  "MIN_INTERVAL_MS = 5000"

definition init :: state where
  "init = \<lparr>cache = Map.empty, lastCallTs = 0, remoteBlockedUntil = 0\<rparr>"

text \<open>
  What one run of a handler reads from outside: the three readings of
  \<^verbatim>\<open>Date.now()\<close> (in the handler before the gate, inside \<open>safeSearchDevices\<close>, in the
  \<^verbatim>\<open>catch\<close> block) and the upstream provider. Nothing is assumed about the order of the
  readings.
\<close>

record env =
  now_gate :: int
  now_client :: int
  now_catch :: int
  provider :: upstream

section \<open>Responses\<close>

datatype reject_code = LOCAL_THROTTLE | UPSTREAM_BLOCKED | CODE_429

record public_result =
  pub_id :: string
  pub_name :: string
  image :: jstring
  pub_brand :: jstring

text \<open>
  \<open>Error500 details\<close> carries \<^verbatim>\<open>err.message\<close>; \<open>EsimAnswer p c\<close> is the payload \<open>p\<close>,
  with \<^verbatim>\<open>fromCache: true\<close> added when \<open>c\<close> holds.
\<close>

datatype response =
    Error400
  | Error429 reject_code
  | Error500 string
  | SearchResults "public_result list"
  | EsimAnswer payload bool

fun status :: "response \<Rightarrow> nat" where
  "status Error400 = 400"
| "status (Error429 c) = 429"
| "status (Error500 d) = 500"
| "status (SearchResults rs) = 200"
| "status (EsimAnswer p c) = 200"

section \<open>Helpers of the source\<close>

definition BLOCKED_ERROR :: js_error where
  "BLOCKED_ERROR =
     \<lparr>err_status = None, err_code = Some ''UPSTREAM_BLOCKED'', err_message = ''UPSTREAM_BLOCKED''\<rparr>"

text \<open>
  \<open>safeSearchDevices\<close> (lines 26 to 35), given the state and the reading of the clock:
  the result or the error thrown, and the upstream calls made.
\<close>

definition safeSearchDevices ::
  "state \<Rightarrow> int \<Rightarrow> upstream \<Rightarrow> jstring \<Rightarrow> (js_error + search_result option list) \<times> upstream_call list"
where
  "safeSearchDevices st now up query =
     (if now < remoteBlockedUntil st then (Inl BLOCKED_ERROR, [])
      else (case search_search up query of
              Inl err \<Rightarrow> (Inl err, [Search query])
            | Inr None \<Rightarrow> (Inr [], [Search query])
            | Inr (Some results) \<Rightarrow> (Inr results, [Search query])))"

definition normalizeCacheKey :: "jstring \<Rightarrow> jstring \<Rightarrow> string" where
  "normalizeCacheKey query device_id =
     (if truthy device_id then ''id:'' @ the device_id
      else ''q:'' @ toLowerCase (trim (if truthy query then the query else [])))"

text \<open>\<^verbatim>\<open>x || null\<close> on a string that may be missing.\<close>

definition or_null :: "jstring \<Rightarrow> jstring" where
  "or_null x = (if truthy x then x else None)"

definition mapDeviceResult :: "search_result option \<Rightarrow> public_result option" where
  "mapDeviceResult device =
     (case device of
        None \<Rightarrow> None
      | Some d \<Rightarrow> Some \<lparr>pub_id = res_id d, pub_name = res_name d,
                         image = or_null (thumbnail d), pub_brand = or_null (brand d)\<rparr>)"

text \<open>
  The \<^verbatim>\<open>catch\<close> block of both handlers (lines 83 to 98 and 209 to 224), given the
  reading of the clock there.
\<close>

definition catchError :: "state \<Rightarrow> int \<Rightarrow> js_error \<Rightarrow> response \<times> state" where
  "catchError st now err =
     (if err_status err = Some 429 \<or> err_code err = Some ''UPSTREAM_BLOCKED''
      then (Error429 CODE_429, st\<lparr>remoteBlockedUntil := now + 30000\<rparr>)
      else (Error500 (err_message err), st))"

section \<open>The search handler\<close>

text \<open>\<^verbatim>\<open>.filter(Boolean)\<close> on an array of objects and \<^verbatim>\<open>null\<close>s.\<close>

fun filter_Boolean :: "'a option list \<Rightarrow> 'a list" where
  "filter_Boolean [] = []"
| "filter_Boolean (None # xs) = filter_Boolean xs"
| "filter_Boolean (Some x # xs) = x # filter_Boolean xs"

text \<open>
  \<^verbatim>\<open>POST /api/search-devices\<close> (lines 53 to 99); the argument is \<^verbatim>\<open>req.body.query\<close>.
  The result is the response, the state afterwards and the upstream calls made.
\<close>

definition searchDevices ::
  "state \<Rightarrow> env \<Rightarrow> jstring \<Rightarrow> response \<times> state \<times> upstream_call list"
where
  "searchDevices st e query =
     (if \<not> truthy query \<or> \<not> truthy (Some (trim (the query))) then (Error400, st, [])
      else let now = now_gate e in
        if now - lastCallTs st < MIN_INTERVAL_MS then (Error429 LOCAL_THROTTLE, st, [])
        else if now < remoteBlockedUntil st then (Error429 UPSTREAM_BLOCKED, st, [])
        else let st1 = st\<lparr>lastCallTs := now\<rparr>;
                 cleanQuery = trim (the query)
             in (case safeSearchDevices st1 (now_client e) (provider e) (Some cleanQuery) of
                   (Inl err, calls) \<Rightarrow>
                     (let (r, st2) = catchError st1 (now_catch e) err in (r, st2, calls))
                 | (Inr results, calls) \<Rightarrow>
                     (SearchResults (filter_Boolean (map mapDeviceResult (take 8 results))),
                      st1, calls)))"

section \<open>The eSIM handler\<close>

text \<open>The body of the inner loop (lines 166 to 174): one entry, given \<open>simText\<close> so far.\<close>

definition captureText :: "spec_value \<Rightarrow> string" where
  "captureText v =
     (case v of VArr xs \<Rightarrow> join '' | '' xs | VStr s \<Rightarrow> s | VAbsent \<Rightarrow> ''undefined'')"

definition scanEntry :: "jstring \<Rightarrow> spec_entry option \<Rightarrow> jstring" where
  "scanEntry simText spec =
     (case spec of
        None \<Rightarrow> simText
      | Some s \<Rightarrow>
          if \<not> truthy (spec_name s) \<or> \<not> truthy_value (spec_val s) then simText
          else if includes_str (toLowerCase (the (spec_name s))) ''sim''
               then Some (captureText (spec_val s))
               else simText)"

fun scanEntries :: "jstring \<Rightarrow> spec_entry option list \<Rightarrow> jstring" where
  "scanEntries simText [] = simText"
| "scanEntries simText (spec # specs) = scanEntries (scanEntry simText spec) specs"

definition scanSection :: "jstring \<Rightarrow> spec_section option \<Rightarrow> jstring" where
  "scanSection simText sec =
     (case sec of
        None \<Rightarrow> simText
      | Some s \<Rightarrow> (case specifications s of None \<Rightarrow> simText
                    | Some specs \<Rightarrow> scanEntries simText specs))"

fun scanSections :: "jstring \<Rightarrow> spec_section option list \<Rightarrow> jstring" where
  "scanSections simText [] = simText"
| "scanSections simText (sec # secs) = scanSections (scanSection simText sec) secs"

text \<open>Lines 159 to 177: \<open>simText\<close> after the scan of the device.\<close>

definition scanDevice :: "device \<Rightarrow> jstring" where
  "scanDevice d =
     (case detailSpec d of None \<Rightarrow> None | Some secs \<Rightarrow> scanSections None secs)"

text \<open>\<^verbatim>\<open>device.name || (firstResult && firstResult.name) || query\<close>.\<close>

definition pickDeviceName :: "device \<Rightarrow> search_result option \<Rightarrow> jstring \<Rightarrow> jstring" where
  "pickDeviceName d firstResult query =
     (if truthy (dev_name d) then dev_name d
      else (case firstResult of
              None \<Rightarrow> query
            | Some r \<Rightarrow> if res_name r \<noteq> [] then Some (res_name r) else query))"

text \<open>Lines 179 to 204: the payload built from the device and \<open>simText\<close>.\<close>

definition buildPayload ::
  "device \<Rightarrow> search_result option \<Rightarrow> jstring \<Rightarrow> string \<Rightarrow> jstring \<Rightarrow> payload"
where
  "buildPayload d firstResult query selectedId simText =
     (if \<not> truthy simText
      then \<lparr>found = True, deviceName = pickDeviceName d firstResult query,
            deviceId = Some selectedId, simRaw = None, supportsEsim = None,
            message = MSG_NO_SIM_DATA\<rparr>
      else let supports = includes_str (toLowerCase (the simText)) ''esim''
           in \<lparr>found = True, deviceName = pickDeviceName d firstResult query,
               deviceId = Some selectedId, simRaw = simText, supportsEsim = Some supports,
               message = (if supports then MSG_SUPPORTS_ESIM else MSG_NO_EVIDENCE)\<rparr>)"

definition NOT_FOUND_PAYLOAD :: payload where
  "NOT_FOUND_PAYLOAD =
     \<lparr>found = False, deviceName = None, deviceId = None, simRaw = None,
      supportsEsim = None, message = MSG_NOT_FOUND\<rparr>"

definition TYPE_ERROR :: js_error where
  "TYPE_ERROR =
     \<lparr>err_status = None, err_code = None,
      err_message = ''Cannot read properties of null (reading 'id')''\<rparr>"

text \<open>
  Lines 156 to 208, from the call of \<^verbatim>\<open>getDevice\<close> on: the state is the one the
  handler finds when it gets there.
\<close>

definition fetchDevice ::
  "state \<Rightarrow> upstream \<Rightarrow> string \<Rightarrow> jstring \<Rightarrow> search_result option \<Rightarrow> string \<Rightarrow>
   (js_error + response) \<times> state \<times> upstream_call list"
where
  "fetchDevice st up cacheKey query firstResult selectedId =
     (case catalog_getDevice up selectedId of
        Inl err \<Rightarrow> (Inl err, st, [GetDevice selectedId])
      | Inr d \<Rightarrow>
          (let p = buildPayload d firstResult query selectedId (scanDevice d)
           in (Inr (EsimAnswer p False), st\<lparr>cache := (cache st)(cacheKey \<mapsto> p)\<rparr>,
               [GetDevice selectedId])))"

text \<open>Lines 136 to 208: the \<^verbatim>\<open>try\<close> block after the gate.\<close>

definition lookupDevice ::
  "state \<Rightarrow> env \<Rightarrow> string \<Rightarrow> jstring \<Rightarrow> jstring \<Rightarrow> jstring \<Rightarrow>
   (js_error + response) \<times> state \<times> upstream_call list"
where
  "lookupDevice st e cacheKey query cleanQuery device_id =
     (if \<not> truthy device_id
      then (case safeSearchDevices st (now_client e) (provider e) cleanQuery of
              (Inl err, calls) \<Rightarrow> (Inl err, st, calls)
            | (Inr [], calls) \<Rightarrow>
                (Inr (EsimAnswer NOT_FOUND_PAYLOAD False),
                 st\<lparr>cache := (cache st)(cacheKey \<mapsto> NOT_FOUND_PAYLOAD)\<rparr>, calls)
            | (Inr (None # rest), calls) \<Rightarrow> (Inl TYPE_ERROR, st, calls)
            | (Inr (Some firstResult # rest), calls) \<Rightarrow>
                (case fetchDevice st (provider e) cacheKey query (Some firstResult)
                        (res_id firstResult) of
                   (r, st', calls') \<Rightarrow> (r, st', calls @ calls')))
      else fetchDevice st (provider e) cacheKey query None (the device_id))"

text \<open>The body of a \<^verbatim>\<open>POST /api/check-esim\<close> request.\<close>

record check_body =
  body_query :: jstring
  body_deviceId :: jstring

text \<open>\<^verbatim>\<open>POST /api/check-esim\<close> (lines 102 to 225).\<close>

definition checkEsim ::
  "state \<Rightarrow> env \<Rightarrow> check_body \<Rightarrow> response \<times> state \<times> upstream_call list"
where
  "checkEsim st e body =
     (let query = body_query body; device_id = body_deviceId body in
      if (\<not> truthy query \<or> \<not> truthy (Some (trim (the query)))) \<and> \<not> truthy device_id
      then (Error400, st, [])
      else let cleanQuery = (if truthy query then Some (trim (the query)) else None);
               cacheKey = normalizeCacheKey cleanQuery device_id
           in (case cache st cacheKey of
                 Some p \<Rightarrow> (EsimAnswer p True, st, [])
               | None \<Rightarrow>
                   let now = now_gate e in
                   if now - lastCallTs st < MIN_INTERVAL_MS
                   then (Error429 LOCAL_THROTTLE, st, [])
                   else if now < remoteBlockedUntil st
                   then (Error429 UPSTREAM_BLOCKED, st, [])
                   else (case lookupDevice (st\<lparr>lastCallTs := now\<rparr>) e cacheKey query
                                cleanQuery device_id of
                           (Inl err, st2, calls) \<Rightarrow>
                             (let (r, st3) = catchError st2 (now_catch e) err
                              in (r, st3, calls))
                         | (Inr r, st2, calls) \<Rightarrow> (r, st2, calls))))"

section \<open>Vocabulary of the claims\<close>

text \<open>
  An entry whose name contains "sim", whatever the case of its letters; and an entry the
  scan takes its text from: one whose name contains "sim" and whose value is truthy.
\<close>

definition name_contains_sim :: "spec_entry \<Rightarrow> bool" where
  "name_contains_sim s =
     (case spec_name s of None \<Rightarrow> False | Some n \<Rightarrow> includes_str (toLowerCase n) ''sim'')"

definition sim_match :: "spec_entry \<Rightarrow> bool" where
  "sim_match s = (name_contains_sim s \<and> truthy_value (spec_val s))"

text \<open>
  The entries of a device in the order the scan visits them: sections in order, the
  entries of a section in order; a section or entry that is \<^verbatim>\<open>null\<close> and a section
  whose \<open>specifications\<close> is not an array contribute nothing.
\<close>

definition section_entries :: "spec_section option \<Rightarrow> spec_entry list" where
  "section_entries sec =
     (case sec of
        None \<Rightarrow> []
      | Some s \<Rightarrow> (case specifications s of None \<Rightarrow> [] | Some specs \<Rightarrow> filter_Boolean specs))"

definition entries_in_scan_order :: "device \<Rightarrow> spec_entry list" where
  "entries_in_scan_order d =
     (case detailSpec d of None \<Rightarrow> [] | Some secs \<Rightarrow> concat (map section_entries secs))"

text \<open>
  Last match wins, as a function of the list of entries: the text of the last entry
  that matches, or \<open>simText\<close> as it was when none does.
\<close>

definition last_match_text :: "jstring \<Rightarrow> spec_entry list \<Rightarrow> jstring" where
  "last_match_text simText es =
     (if filter sim_match es = [] then simText
      else Some (captureText (spec_val (last (filter sim_match es)))))"

text \<open>The cache key the handler computes for a request body (lines 112 and 113).\<close>

definition lookupKey :: "check_body \<Rightarrow> string" where
  "lookupKey body =
     normalizeCacheKey
       (if truthy (body_query body) then Some (trim (the (body_query body))) else None)
       (body_deviceId body)"

text \<open>A request to one of the two endpoints, and the dispatch of the router.\<close>

datatype request = SearchDevices jstring | CheckEsim check_body

fun handle :: "state \<Rightarrow> env \<Rightarrow> request \<Rightarrow> response \<times> state \<times> upstream_call list" where
  "handle st e (SearchDevices query) = searchDevices st e query"
| "handle st e (CheckEsim body) = checkEsim st e body"

text \<open>
  A query is blank when it is absent, empty or made of white space only. A request is
  bound for the upstream provider when it passes the validation of its handler and, for
  \<^verbatim>\<open>/api/check-esim\<close>, its key is not in the cache.
\<close>

definition blank :: "jstring \<Rightarrow> bool" where
  "blank query = (case query of None \<Rightarrow> True | Some s \<Rightarrow> list_all isSpace s)"

fun upstream_bound :: "state \<Rightarrow> request \<Rightarrow> bool" where
  "upstream_bound st (SearchDevices query) = (\<not> blank query)"
| "upstream_bound st (CheckEsim body) =
     ((\<not> blank (body_query body) \<or> truthy (body_deviceId body)) \<and>
      cache st (lookupKey body) = None)"

text \<open>
  The states the process gets to from \<open>init\<close> by handling requests one after the other,
  whatever the clock and the provider say.
\<close>

inductive reachable :: "state \<Rightarrow> bool" where
  reachable_init: "reachable init"
| reachable_step: "reachable st \<Longrightarrow> handle st e r = (resp, st', calls) \<Longrightarrow> reachable st'"

text \<open>
  The error, if any, with which the provider answers an upstream call, and the errors
  the \<^verbatim>\<open>catch\<close> blocks take for a rate limit (lines 86 and 212).
\<close>

fun call_error :: "upstream \<Rightarrow> upstream_call \<Rightarrow> js_error option" where
  "call_error up (Search q) = (case search_search up q of Inl err \<Rightarrow> Some err | Inr raw \<Rightarrow> None)"
| "call_error up (GetDevice i) =
     (case catalog_getDevice up i of Inl err \<Rightarrow> Some err | Inr d \<Rightarrow> None)"

definition rate_limit_signal :: "js_error \<Rightarrow> bool" where
  "rate_limit_signal err = (err_status err = Some 429 \<or> err_code err = Some ''UPSTREAM_BLOCKED'')"

section \<open>Concrete scenarios\<close>

text \<open>
  A search result, devices, providers and requests on which the theorems are run. A
  provider is given by what it answers: \<open>demo_provider d\<close> finds one result for every
  query and returns the device \<open>d\<close>; \<open>empty_provider\<close> finds nothing and knows no device;
  \<open>busy_provider\<close> returns ten results, one of them \<^verbatim>\<open>null\<close>; \<open>limiting_provider\<close> answers
  every search with status 429.
\<close>

definition demo_result :: search_result where
  "demo_result =
     \<lparr>res_id = ''apple_iphone_15-12559'', res_name = ''Apple iPhone 15'',
      thumbnail = Some ''iphone15.jpg'', brand = None\<rparr>"

definition demo_public :: public_result where
  "demo_public =
     \<lparr>pub_id = ''apple_iphone_15-12559'', pub_name = ''Apple iPhone 15'',
      image = Some ''iphone15.jpg'', pub_brand = None\<rparr>"

definition entry :: "string \<Rightarrow> spec_value \<Rightarrow> spec_entry" where
  "entry n v = \<lparr>spec_name = Some n, spec_val = v\<rparr>"

definition sim_section :: "(string \<times> spec_value) list \<Rightarrow> spec_section option" where
  "sim_section kvs = Some \<lparr>specifications = Some (map (\<lambda>(n, v). Some (entry n v)) kvs)\<rparr>"

text \<open>A device with no entry named after the SIM, with a \<^verbatim>\<open>null\<close> section and entry.\<close>

definition demo_device_plain :: device where
  "demo_device_plain =
     \<lparr>dev_name = Some ''Apple iPhone 15'',
      detailSpec = Some
        [Some \<lparr>specifications = Some
           [Some (entry ''Technology'' (VStr ''GSM / HSPA / LTE / 5G'')), None]\<rparr>,
         None,
         Some \<lparr>specifications = None\<rparr>,
         sim_section [(''Dimensions'', VArr [''147.6 mm'', ''71.6 mm''])]]\<rparr>"

text \<open>Two entries named after the SIM, in two sections, both with a value.\<close>

definition demo_device_two_sims :: device where
  "demo_device_two_sims =
     \<lparr>dev_name = Some ''Apple iPhone 15'',
      detailSpec = Some
        [sim_section [(''Technology'', VStr ''GSM / LTE''), (''SIM'', VStr ''Nano-SIM'')],
         sim_section [(''Dual SIM'', VArr [''Nano-SIM'', ''eSIM'']), (''Colors'', VStr ''Black'')]]\<rparr>"

text \<open>Entries named after the SIM whose value is empty, an empty array or absent.\<close>

definition demo_device_empty_sims :: device where
  "demo_device_empty_sims =
     \<lparr>dev_name = Some ''Apple iPhone 15'',
      detailSpec = Some
        [sim_section [(''SIM'', VStr ''''), (''Sim slots'', VArr [])],
         sim_section [(''eSIM'', VAbsent), (''Colors'', VStr ''Black'')]]\<rparr>"

text \<open>Two entries named after the SIM, the last one with the empty string as its value.\<close>

definition demo_device_last_empty :: device where
  "demo_device_last_empty =
     \<lparr>dev_name = Some ''Apple iPhone 15'',
      detailSpec = Some
        [sim_section [(''SIM'', VStr ''Nano-SIM'')],
         sim_section [(''SIM 2'', VStr '''')]]\<rparr>"

text \<open>One entry named after the SIM, with the empty string as its value.\<close>

definition demo_device_blank_sim :: device where
  "demo_device_blank_sim =
     \<lparr>dev_name = Some ''Apple iPhone 15'',
      detailSpec = Some [sim_section [(''SIM'', VStr '''')]]\<rparr>"

definition NOT_FOUND_404 :: js_error where
  "NOT_FOUND_404 =
     \<lparr>err_status = Some 404, err_code = Some ''ERR_BAD_REQUEST'',
      err_message = ''Request failed with status code 404''\<rparr>"

definition TOO_MANY_429 :: js_error where
  "TOO_MANY_429 =
     \<lparr>err_status = Some 429, err_code = Some ''ERR_BAD_REQUEST'',
      err_message = ''Request failed with status code 429''\<rparr>"

definition demo_provider :: "device \<Rightarrow> upstream" where
  "demo_provider d =
     \<lparr>search_search = (\<lambda>q. Inr (Some [Some demo_result])),
      catalog_getDevice = (\<lambda>i. Inr d)\<rparr>"

definition empty_provider :: upstream where
  "empty_provider =
     \<lparr>search_search = (\<lambda>q. Inr (Some [])), catalog_getDevice = (\<lambda>i. Inl NOT_FOUND_404)\<rparr>"

definition busy_provider :: upstream where
  "busy_provider =
     \<lparr>search_search = (\<lambda>q. Inr (Some (Some demo_result # None # replicate 8 (Some demo_result)))),
      catalog_getDevice = (\<lambda>i. Inr demo_device_plain)\<rparr>"

definition limiting_provider :: upstream where
  "limiting_provider =
     \<lparr>search_search = (\<lambda>q. Inl TOO_MANY_429),
      catalog_getDevice = (\<lambda>i. Inr demo_device_plain)\<rparr>"

text \<open>
  The clock: the gate reads \<open>t\<close>, \<open>safeSearchDevices\<close> reads it 1 ms later and the
  \<^verbatim>\<open>catch\<close> block 100 ms later (400 ms in \<open>demo_env\<close>, whose gate reads 10000).
\<close>

definition demo_env_at :: "int \<Rightarrow> upstream \<Rightarrow> env" where
  "demo_env_at t up = \<lparr>now_gate = t, now_client = t + 1, now_catch = t + 100, provider = up\<rparr>"

definition demo_env :: "device \<Rightarrow> env" where
  "demo_env d =
     \<lparr>now_gate = 10000, now_client = 10001, now_catch = 10400, provider = demo_provider d\<rparr>"

definition demo_body :: check_body where
  "demo_body = \<lparr>body_query = Some '' iPhone 15 '', body_deviceId = None\<rparr>"

definition unknown_body :: check_body where
  "unknown_body = \<lparr>body_query = Some ''Nokia 9999'', body_deviceId = None\<rparr>"

definition unknown_id_body :: check_body where
  "unknown_id_body = \<lparr>body_query = Some ''Nokia 9999'', body_deviceId = Some ''nokia_9999-0000''\<rparr>"

text \<open>The first request of the process, for \<open>demo_body\<close>, when the provider returns \<open>d\<close>.\<close>

definition demo_run :: "device \<Rightarrow> response \<times> state \<times> upstream_call list" where
  "demo_run d = checkEsim init (demo_env d) demo_body"

text \<open>A search for ten results, and the states that a first request leaves.\<close>

definition busy_run :: "response \<times> state \<times> upstream_call list" where
  "busy_run = searchDevices init (demo_env_at 10000 busy_provider) (Some '' iphone '')"

definition after_search :: state where
  "after_search =
     fst (snd (searchDevices init (demo_env_at 10000 (demo_provider demo_device_plain))
                 (Some ''iphone'')))"

definition after_miss :: state where
  "after_miss = fst (snd (checkEsim init (demo_env_at 10000 empty_provider) unknown_body))"

definition cooled :: state where
  "cooled = fst (snd (handle init (demo_env_at 10000 limiting_provider)
                        (SearchDevices (Some ''iphone''))))"

text \<open>
  The state in which a request that passed the gate at 10000 goes on after its search,
  when meanwhile a second request passed the gate at 15000 and was answered 429 by the
  provider.
\<close>

definition blocked_state :: state where
  "blocked_state =
     fst (snd (checkEsim (init\<lparr>lastCallTs := 10000\<rparr>) (demo_env_at 15000 limiting_provider)
                 unknown_body))"

section \<open>The scan of the specification entries\<close>

lemma includes_str_iff: "includes_str s sub \<longleftrightarrow> (\<exists>p q. s = p @ sub @ q)"
proof (induction s)
  case Nil
  then show ?case by auto
next
  case (Cons c cs)
  show ?case
  proof
    assume "includes_str (c # cs) sub"
    then consider "take (length sub) (c # cs) = sub" | "includes_str cs sub" by auto
    then show "\<exists>p q. c # cs = p @ sub @ q"
    proof cases
      case 1
      then have "c # cs = [] @ sub @ drop (length sub) (c # cs)"
        by (metis append_Nil append_take_drop_id)
      then show ?thesis by blast
    next
      case 2
      then obtain p q where "cs = p @ sub @ q" using Cons.IH by blast
      then have "c # cs = (c # p) @ sub @ q" by simp
      then show ?thesis by blast
    qed
  next
    assume "\<exists>p q. c # cs = p @ sub @ q"
    then obtain p q where pq: "c # cs = p @ sub @ q" by blast
    show "includes_str (c # cs) sub"
    proof (cases p)
      case Nil
      then have "take (length sub) (c # cs) = sub" using pq by simp
      then show ?thesis by simp
    next
      case (Cons a p')
      then have "cs = p' @ sub @ q" using pq by simp
      then show ?thesis using Cons.IH by auto
    qed
  qed
qed

lemma name_contains_sim_truthy: "name_contains_sim s \<Longrightarrow> truthy (spec_name s)"
  by (cases "spec_name s") (auto simp: name_contains_sim_def toLowerCase_def)

lemma scanEntry_Some:
  "scanEntry simText (Some s) = (if sim_match s then Some (captureText (spec_val s)) else simText)"
  by (cases "spec_name s")
     (auto simp: scanEntry_def sim_match_def name_contains_sim_def toLowerCase_def)

lemma last_match_text_append:
  "last_match_text simText (xs @ ys) = last_match_text (last_match_text simText xs) ys"
  by (simp add: last_match_text_def)

lemma scanEntries_eq:
  "scanEntries simText specs = last_match_text simText (filter_Boolean specs)"
proof (induction specs arbitrary: simText)
  case Nil
  then show ?case by (simp add: last_match_text_def)
next
  case (Cons spec specs)
  show ?case
  proof (cases spec)
    case None
    then show ?thesis using Cons.IH by (simp add: scanEntry_def)
  next
    case (Some s)
    have "last_match_text simText (s # filter_Boolean specs)
          = last_match_text (last_match_text simText [s]) (filter_Boolean specs)"
      by (simp only: last_match_text_append [symmetric] append_Cons append_Nil)
    moreover have "last_match_text simText [s] = scanEntry simText (Some s)"
      by (simp add: last_match_text_def scanEntry_Some)
    ultimately show ?thesis using Some Cons.IH by simp
  qed
qed

lemma scanSection_eq:
  "scanSection simText sec = last_match_text simText (section_entries sec)"
  by (auto simp: scanSection_def section_entries_def scanEntries_eq last_match_text_def
           split: option.splits)

lemma scanSections_eq:
  "scanSections simText secs = last_match_text simText (concat (map section_entries secs))"
proof (induction secs arbitrary: simText)
  case Nil
  then show ?case by (simp add: last_match_text_def)
next
  case (Cons sec secs)
  then show ?case by (simp add: scanSection_eq last_match_text_append)
qed

lemma scanDevice_eq: "scanDevice d = last_match_text None (entries_in_scan_order d)"
  by (auto simp: scanDevice_def entries_in_scan_order_def scanSections_eq last_match_text_def
           split: option.splits)

section \<open>A fresh answer of the eSIM handler\<close>

lemma fetchDevice_calls:
  "fetchDevice st up k q fr sid = (r, st', calls) \<Longrightarrow> calls = [GetDevice sid]"
  by (auto simp: fetchDevice_def Let_def split: sum.splits)

lemma fetchDevice_Inr:
  assumes "catalog_getDevice up sid = Inr d"
  shows "fetchDevice st up k q fr sid =
           (Inr (EsimAnswer (buildPayload d fr q sid (scanDevice d)) False),
            st\<lparr>cache := (cache st)(k \<mapsto> buildPayload d fr q sid (scanDevice d))\<rparr>,
            [GetDevice sid])"
  using assms by (simp add: fetchDevice_def Let_def)

lemma safeSearchDevices_calls:
  "safeSearchDevices st t up q = (r, calls) \<Longrightarrow> GetDevice sid \<notin> set calls"
  by (auto simp: safeSearchDevices_def split: if_splits sum.splits option.splits)

lemma lookupDevice_answer:
  assumes run: "lookupDevice st e k q cq did = (r, st', calls)"
      and call: "GetDevice sid \<in> set calls"
      and dev: "catalog_getDevice (provider e) sid = Inr d"
  shows "\<exists>fr. r = Inr (EsimAnswer (buildPayload d fr q sid (scanDevice d)) False) \<and>
              st' = st\<lparr>cache := (cache st)(k \<mapsto> buildPayload d fr q sid (scanDevice d))\<rparr>"
proof (cases "truthy did")
  case True
  then have f: "fetchDevice st (provider e) k q None (the did) = (r, st', calls)"
    using run by (simp add: lookupDevice_def)
  then have "calls = [GetDevice (the did)]" by (rule fetchDevice_calls)
  then have "sid = the did" using call by simp
  then show ?thesis using f fetchDevice_Inr [OF dev, of st k q None] by auto
next
  case False
  obtain sr scalls where s: "safeSearchDevices st (now_client e) (provider e) cq = (sr, scalls)"
    by (cases "safeSearchDevices st (now_client e) (provider e) cq")
  have nos: "GetDevice sid \<notin> set scalls" using s by (rule safeSearchDevices_calls)
  show ?thesis
  proof (cases sr)
    case (Inl err)
    then show ?thesis using run False s nos call by (simp add: lookupDevice_def)
  next
    case (Inr results)
    show ?thesis
    proof (cases results)
      case Nil
      then show ?thesis using run False s nos call Inr by (simp add: lookupDevice_def)
    next
      case (Cons x rest)
      show ?thesis
      proof (cases x)
        case None
        then show ?thesis using run False s nos call Inr Cons by (simp add: lookupDevice_def)
      next
        case (Some firstResult)
        obtain r1 st1 c1 where
          f: "fetchDevice st (provider e) k q (Some firstResult) (res_id firstResult) = (r1, st1, c1)"
          by (cases "fetchDevice st (provider e) k q (Some firstResult) (res_id firstResult)")
        have eq: "r = r1" "st' = st1" "calls = scalls @ c1"
          using run False s Inr Cons Some f by (simp_all add: lookupDevice_def)
        have "c1 = [GetDevice (res_id firstResult)]" using f by (rule fetchDevice_calls)
        then have "sid = res_id firstResult" using call nos eq by simp
        then show ?thesis
          using f eq fetchDevice_Inr [OF dev, of st k q "Some firstResult"] by auto
      qed
    qed
  qed
qed

lemma catchError_not_answer: "catchError st t err = (r, st') \<Longrightarrow> r \<noteq> EsimAnswer p c"
  by (auto simp: catchError_def split: if_splits)

lemma checkEsim_answer:
  assumes run: "checkEsim st e body = (r, st', calls)"
      and call: "GetDevice sid \<in> set calls"
      and dev: "catalog_getDevice (provider e) sid = Inr d"
  shows "\<exists>fr. r = EsimAnswer (buildPayload d fr (body_query body) sid (scanDevice d)) False \<and>
              cache st' (lookupKey body) =
                Some (buildPayload d fr (body_query body) sid (scanDevice d))"
proof -
  let ?q = "body_query body" and ?did = "body_deviceId body"
  let ?cq = "if truthy ?q then Some (trim (the ?q)) else None"
  let ?k = "normalizeCacheKey ?cq ?did"
  let ?st1 = "st\<lparr>lastCallTs := now_gate e\<rparr>"
  obtain lr lst lcalls where l: "lookupDevice ?st1 e ?k ?q ?cq ?did = (lr, lst, lcalls)"
    by (cases "lookupDevice ?st1 e ?k ?q ?cq ?did")
  have passed: "checkEsim st e body =
      (case lr of Inl err \<Rightarrow> (let (r, st3) = catchError lst (now_catch e) err in (r, st3, lcalls))
       | Inr r \<Rightarrow> (r, lst, lcalls))"
    using run call l
    by (auto simp: checkEsim_def Let_def split: if_splits option.splits)
  have calls: "calls = lcalls"
    using run passed by (auto split: sum.splits prod.splits)
  from lookupDevice_answer [OF l _ dev] call calls
  obtain fr where fr: "lr = Inr (EsimAnswer (buildPayload d fr ?q sid (scanDevice d)) False)"
    "lst = ?st1\<lparr>cache := (cache ?st1)(?k \<mapsto> buildPayload d fr ?q sid (scanDevice d))\<rparr>"
    by blast
  then have "r = EsimAnswer (buildPayload d fr ?q sid (scanDevice d)) False" "st' = lst"
    using run passed by simp_all
  then show ?thesis using fr by (auto simp: lookupKey_def)
qed

lemma buildPayload_no_text:
  "\<not> truthy simText \<Longrightarrow>
     found (buildPayload d fr q sid simText) \<and> simRaw (buildPayload d fr q sid simText) = None \<and>
     supportsEsim (buildPayload d fr q sid simText) = None \<and>
     message (buildPayload d fr q sid simText) = MSG_NO_SIM_DATA"
  by (simp add: buildPayload_def)

lemma scanDevice_last_match:
  assumes "entries_in_scan_order d = pre @ w # post"
      and "sim_match w"
      and "\<forall>x \<in> set post. \<not> sim_match x"
  shows "scanDevice d = Some (captureText (spec_val w))"
proof -
  have "filter sim_match post = []" using assms(3) by (simp add: filter_empty_conv)
  then have "filter sim_match (entries_in_scan_order d) = filter sim_match pre @ [w]"
    using assms(1,2) by simp
  then show ?thesis by (simp add: scanDevice_eq last_match_text_def)
qed

lemma buildPayload_text:
  "t \<noteq> [] \<Longrightarrow>
     buildPayload d fr q sid (Some t) =
       \<lparr>found = True, deviceName = pickDeviceName d fr q, deviceId = Some sid,
        simRaw = Some t, supportsEsim = Some (includes_str (toLowerCase t) ''esim''),
        message = (if includes_str (toLowerCase t) ''esim'' then MSG_SUPPORTS_ESIM
                   else MSG_NO_EVIDENCE)\<rparr>"
  by (simp add: buildPayload_def Let_def)

section \<open>Validation and cache keys\<close>

lemma trim_Nil_iff: "trim s = [] \<longleftrightarrow> list_all isSpace s"
proof -
  have "trim s = [] \<longleftrightarrow> (\<forall>x \<in> set (dropWhile isSpace s). isSpace x)"
    by (simp add: trim_def dropWhile_eq_Nil_conv)
  also have "\<dots> \<longleftrightarrow> dropWhile isSpace s = []"
  proof
    assume a: "\<forall>x \<in> set (dropWhile isSpace s). isSpace x"
    show "dropWhile isSpace s = []"
    proof (rule ccontr)
      assume n: "dropWhile isSpace s \<noteq> []"
      then have "\<not> isSpace (hd (dropWhile isSpace s))" by (rule hd_dropWhile)
      moreover have "hd (dropWhile isSpace s) \<in> set (dropWhile isSpace s)" using n by simp
      ultimately show False using a by blast
    qed
  next
    assume e: "dropWhile isSpace s = []"
    show "\<forall>x \<in> set (dropWhile isSpace s). isSpace x" unfolding e by simp
  qed
  also have "\<dots> \<longleftrightarrow> list_all isSpace s"
    by (simp add: dropWhile_eq_Nil_conv list_all_iff)
  finally show ?thesis .
qed

lemma blank_iff: "blank query \<longleftrightarrow> \<not> truthy query \<or> \<not> truthy (Some (trim (the query)))"
  by (cases query) (auto simp: blank_def trim_Nil_iff)

lemma trim_idem: "trim (trim s) = trim s"
proof -
  let ?u = "dropWhile isSpace s"
  let ?t = "rev (dropWhile isSpace (rev ?u))"
  have u: "?u = ?t @ rev (takeWhile isSpace (rev ?u))"
    by (metis rev_append rev_rev_ident takeWhile_dropWhile_id)
  have "dropWhile isSpace ?t = ?t"
  proof (cases "?t = []")
    case True
    then show ?thesis by (simp only: dropWhile.simps)
  next
    case False
    then have "hd ?t = hd ?u" using u by (metis hd_append2)
    moreover have "?u \<noteq> []" using False u by (metis append_is_Nil_conv)
    then have "\<not> isSpace (hd ?u)" by (rule hd_dropWhile)
    ultimately show ?thesis using False by (cases ?t) auto
  qed
  then show ?thesis by (simp add: trim_def)
qed

lemma toLowerCase_Nil_iff [simp]: "toLowerCase s = [] \<longleftrightarrow> s = []"
  by (simp add: toLowerCase_def)

lemma lookupKey_blank:
  "blank (body_query body) \<Longrightarrow> \<not> truthy (body_deviceId body) \<Longrightarrow> lookupKey body = ''q:''"
  by (cases "body_query body")
     (auto simp: lookupKey_def normalizeCacheKey_def blank_def trim_Nil_iff toLowerCase_def)

lemma lookupKey_valid:
  assumes "\<not> blank (body_query body) \<or> truthy (body_deviceId body)"
  shows "lookupKey body \<noteq> ''q:''"
proof (cases "truthy (body_deviceId body)")
  case True
  then show ?thesis by (simp add: lookupKey_def normalizeCacheKey_def)
next
  case False
  then have nb: "\<not> blank (body_query body)" using assms by blast
  then obtain s where s: "body_query body = Some s" "trim s \<noteq> []"
    by (cases "body_query body") (auto simp: blank_def trim_Nil_iff)
  then have "s \<noteq> []" by (auto simp: trim_def)
  then show ?thesis using False s by (simp add: lookupKey_def normalizeCacheKey_def trim_idem)
qed

section \<open>The gate of both handlers\<close>

lemma searchDevices_blank: "blank query \<Longrightarrow> searchDevices st e query = (Error400, st, [])"
  by (simp add: searchDevices_def blank_iff)

lemma checkEsim_blank:
  "blank (body_query body) \<Longrightarrow> \<not> truthy (body_deviceId body) \<Longrightarrow>
     checkEsim st e body = (Error400, st, [])"
  by (simp add: checkEsim_def blank_iff Let_def)

lemma checkEsim_valid_unfold:
  assumes "\<not> blank (body_query body) \<or> truthy (body_deviceId body)"
  shows "checkEsim st e body =
     (case cache st (lookupKey body) of
        Some p \<Rightarrow> (EsimAnswer p True, st, [])
      | None \<Rightarrow>
          if now_gate e - lastCallTs st < MIN_INTERVAL_MS then (Error429 LOCAL_THROTTLE, st, [])
          else if now_gate e < remoteBlockedUntil st then (Error429 UPSTREAM_BLOCKED, st, [])
          else (case lookupDevice (st\<lparr>lastCallTs := now_gate e\<rparr>) e (lookupKey body)
                       (body_query body)
                       (if truthy (body_query body) then Some (trim (the (body_query body)))
                        else None)
                       (body_deviceId body) of
                  (Inl err, st2, calls) \<Rightarrow>
                    (let (r, st3) = catchError st2 (now_catch e) err in (r, st3, calls))
                | (Inr r, st2, calls) \<Rightarrow> (r, st2, calls)))"
  using assms by (auto simp: checkEsim_def blank_iff Let_def lookupKey_def split: option.splits)

lemma searchDevices_throttled:
  "\<not> blank query \<Longrightarrow> now_gate e - lastCallTs st < 5000 \<Longrightarrow>
     searchDevices st e query = (Error429 LOCAL_THROTTLE, st, [])"
  by (simp add: searchDevices_def blank_iff MIN_INTERVAL_MS_def Let_def)

lemma checkEsim_throttled:
  "\<not> blank (body_query body) \<or> truthy (body_deviceId body) \<Longrightarrow>
   cache st (lookupKey body) = None \<Longrightarrow> now_gate e - lastCallTs st < 5000 \<Longrightarrow>
     checkEsim st e body = (Error429 LOCAL_THROTTLE, st, [])"
  by (simp add: checkEsim_valid_unfold MIN_INTERVAL_MS_def)

lemma searchDevices_blocked:
  "\<not> blank query \<Longrightarrow> \<not> now_gate e - lastCallTs st < 5000 \<Longrightarrow>
   now_gate e < remoteBlockedUntil st \<Longrightarrow>
     searchDevices st e query = (Error429 UPSTREAM_BLOCKED, st, [])"
  by (simp add: searchDevices_def blank_iff MIN_INTERVAL_MS_def Let_def)

lemma checkEsim_blocked:
  "\<not> blank (body_query body) \<or> truthy (body_deviceId body) \<Longrightarrow>
   cache st (lookupKey body) = None \<Longrightarrow> \<not> now_gate e - lastCallTs st < 5000 \<Longrightarrow>
   now_gate e < remoteBlockedUntil st \<Longrightarrow>
     checkEsim st e body = (Error429 UPSTREAM_BLOCKED, st, [])"
  by (simp add: checkEsim_valid_unfold MIN_INTERVAL_MS_def)

lemma checkEsim_hit:
  "\<not> blank (body_query body) \<or> truthy (body_deviceId body) \<Longrightarrow>
   cache st (lookupKey body) = Some p \<Longrightarrow> checkEsim st e body = (EsimAnswer p True, st, [])"
  by (simp add: checkEsim_valid_unfold)

text \<open>What a handler leaves of the state.\<close>

lemma catchError_frame:
  "catchError st t err = (r, st') \<Longrightarrow> cache st' = cache st \<and> lastCallTs st' = lastCallTs st"
  by (auto simp: catchError_def split: if_splits)

lemma fetchDevice_frame:
  "fetchDevice st up k q fr sid = (r, st', calls) \<Longrightarrow>
     lastCallTs st' = lastCallTs st \<and> remoteBlockedUntil st' = remoteBlockedUntil st \<and>
     (cache st' = cache st \<or> (\<exists>p. cache st' = (cache st)(k \<mapsto> p)))"
  by (auto simp: fetchDevice_def Let_def split: sum.splits)

lemma lookupDevice_frame:
  assumes "lookupDevice st e k q cq did = (r, st', calls)"
  shows "lastCallTs st' = lastCallTs st \<and> remoteBlockedUntil st' = remoteBlockedUntil st \<and>
         (cache st' = cache st \<or> (\<exists>p. cache st' = (cache st)(k \<mapsto> p)))"
proof (cases "truthy did")
  case True
  then show ?thesis using assms fetchDevice_frame by (simp add: lookupDevice_def)
next
  case False
  obtain sr scalls where s: "safeSearchDevices st (now_client e) (provider e) cq = (sr, scalls)"
    by (cases "safeSearchDevices st (now_client e) (provider e) cq")
  show ?thesis
  proof (cases sr)
    case (Inl err)
    then show ?thesis using assms False s by (simp add: lookupDevice_def)
  next
    case (Inr results)
    show ?thesis
    proof (cases results)
      case Nil
      then show ?thesis using assms False s Inr by (auto simp: lookupDevice_def)
    next
      case (Cons x rest)
      show ?thesis
      proof (cases x)
        case None
        then show ?thesis using assms False s Inr Cons by (simp add: lookupDevice_def)
      next
        case (Some firstResult)
        obtain r1 st1 c1 where
          f: "fetchDevice st (provider e) k q (Some firstResult) (res_id firstResult) = (r1, st1, c1)"
          by (cases "fetchDevice st (provider e) k q (Some firstResult) (res_id firstResult)")
        have "st' = st1" using assms False s Inr Cons Some f by (simp add: lookupDevice_def)
        then show ?thesis using fetchDevice_frame [OF f] by simp
      qed
    qed
  qed
qed

lemma searchDevices_frame:
  assumes "searchDevices st e query = (r, st', calls)"
  shows "cache st' = cache st \<and>
         (if calls \<noteq> [] then lastCallTs st' = now_gate e
          else lastCallTs st' = lastCallTs st \<or> lastCallTs st' = now_gate e)"
  using assms
  by (auto simp: searchDevices_def Let_def safeSearchDevices_def catchError_def
           split: if_splits sum.splits option.splits prod.splits)

lemma checkEsim_frame:
  assumes "checkEsim st e body = (r, st', calls)"
  shows "(cache st' = cache st \<or>
          ((\<not> blank (body_query body) \<or> truthy (body_deviceId body)) \<and>
           (\<exists>p. cache st' = (cache st)(lookupKey body \<mapsto> p)))) \<and>
         (if calls \<noteq> [] then lastCallTs st' = now_gate e
          else lastCallTs st' = lastCallTs st \<or> lastCallTs st' = now_gate e)"
proof (cases "\<not> blank (body_query body) \<or> truthy (body_deviceId body)")
  case False
  then show ?thesis using assms checkEsim_blank [of body st e] by auto
next
  case True
  let ?st1 = "st\<lparr>lastCallTs := now_gate e\<rparr>"
  let ?cq = "if truthy (body_query body) then Some (trim (the (body_query body))) else None"
  obtain lr lst lcalls where
    l: "lookupDevice ?st1 e (lookupKey body) (body_query body) ?cq (body_deviceId body)
          = (lr, lst, lcalls)"
    by (cases "lookupDevice ?st1 e (lookupKey body) (body_query body) ?cq (body_deviceId body)")
  note fr = lookupDevice_frame [OF l]
  show ?thesis
  proof (cases lr)
    case (Inl err)
    obtain cr cst where c: "catchError lst (now_catch e) err = (cr, cst)"
      by (cases "catchError lst (now_catch e) err")
    show ?thesis
      using assms True l Inl c fr catchError_frame [OF c]
      by (auto simp: checkEsim_valid_unfold split: option.splits if_splits)
  next
    case (Inr ok)
    show ?thesis
      using assms True l Inr fr
      by (auto simp: checkEsim_valid_unfold split: option.splits if_splits)
  qed
qed

lemma reachable_no_blank_key: "reachable st \<Longrightarrow> cache st ''q:'' = None"
proof (induction rule: reachable.induct)
  case reachable_init
  show ?case by (simp add: init_def)
next
  case (reachable_step st e r resp st' calls)
  show ?case
  proof (cases r)
    case (SearchDevices query)
    then show ?thesis using reachable_step searchDevices_frame by auto
  next
    case (CheckEsim body)
    then have "checkEsim st e body = (resp, st', calls)" using reachable_step by simp
    from checkEsim_frame [OF this] lookupKey_valid [of body] reachable_step.IH
    show ?thesis by auto
  qed
qed

section \<open>Results of the search handler\<close>

lemma length_filter_Boolean: "length (filter_Boolean xs) \<le> length xs"
  by (induction xs rule: filter_Boolean.induct) auto

lemma set_filter_Boolean: "set (filter_Boolean xs) = {x. Some x \<in> set xs}"
  by (induction xs rule: filter_Boolean.induct) auto

lemma mapDeviceResult_Some:
  "mapDeviceResult x = Some y \<longleftrightarrow>
     (\<exists>d. x = Some d \<and> y = \<lparr>pub_id = res_id d, pub_name = res_name d,
                               image = or_null (thumbnail d), pub_brand = or_null (brand d)\<rparr>)"
  by (cases x) (auto simp: mapDeviceResult_def)

lemma searchDevices_results:
  assumes "searchDevices st e query = (SearchResults rs, st', calls)"
  shows "\<exists>raw. search_search (provider e) (Some (trim (the query))) = Inr raw \<and>
           rs = filter_Boolean (map mapDeviceResult
                  (take 8 (case raw of None \<Rightarrow> [] | Some xs \<Rightarrow> xs)))"
  using assms
  by (auto simp: searchDevices_def Let_def safeSearchDevices_def catchError_def
           split: if_splits sum.splits option.splits prod.splits)

section \<open>Upstream failures and the open gate\<close>

lemma safeSearchDevices_error:
  "safeSearchDevices st t up q = (r, calls) \<Longrightarrow> c \<in> set calls \<Longrightarrow>
   call_error up c = Some err \<Longrightarrow> r = Inl err"
  by (auto simp: safeSearchDevices_def split: if_splits sum.splits option.splits)

lemma safeSearchDevices_blocked:
  "t < remoteBlockedUntil st \<Longrightarrow> safeSearchDevices st t up q = (Inl BLOCKED_ERROR, [])"
  by (simp add: safeSearchDevices_def)

lemma safeSearchDevices_open:
  "remoteBlockedUntil st \<le> t \<Longrightarrow> snd (safeSearchDevices st t up q) = [Search q]"
  by (auto simp: safeSearchDevices_def split: sum.splits option.splits)

lemma fetchDevice_error:
  "fetchDevice st up k q fr sid = (r, st', calls) \<Longrightarrow> c \<in> set calls \<Longrightarrow>
   call_error up c = Some err \<Longrightarrow> r = Inl err"
  by (auto simp: fetchDevice_def Let_def split: sum.splits)

lemma lookupDevice_error:
  assumes run: "lookupDevice st e k q cq did = (r, st', calls)"
      and call: "c \<in> set calls"
      and err: "call_error (provider e) c = Some err"
  shows "r = Inl err"
proof (cases "truthy did")
  case True
  then show ?thesis using run call err fetchDevice_error by (simp add: lookupDevice_def)
next
  case False
  obtain sr scalls where s: "safeSearchDevices st (now_client e) (provider e) cq = (sr, scalls)"
    by (cases "safeSearchDevices st (now_client e) (provider e) cq")
  note se = safeSearchDevices_error [OF s _ err]
  show ?thesis
  proof (cases sr)
    case (Inl err')
    then show ?thesis using run False s se call by (auto simp: lookupDevice_def)
  next
    case (Inr results)
    show ?thesis
    proof (cases results)
      case Nil
      then show ?thesis using run False s se call Inr by (auto simp: lookupDevice_def)
    next
      case (Cons x rest)
      show ?thesis
      proof (cases x)
        case None
        then show ?thesis using run False s se call Inr Cons by (auto simp: lookupDevice_def)
      next
        case (Some firstResult)
        obtain r1 st1 c1 where
          f: "fetchDevice st (provider e) k q (Some firstResult) (res_id firstResult) = (r1, st1, c1)"
          by (cases "fetchDevice st (provider e) k q (Some firstResult) (res_id firstResult)")
        have eq: "r = r1" "calls = scalls @ c1"
          using run False s Inr Cons Some f by (simp_all add: lookupDevice_def)
        have "c \<notin> set scalls" using se Inr by auto
        then have "c \<in> set c1" using call eq by simp
        then show ?thesis using fetchDevice_error [OF f _ err] eq by simp
      qed
    qed
  qed
qed

lemma lookupDevice_calls:
  assumes "lookupDevice st e k q cq did = (r, st', calls)"
      and "truthy did \<or> remoteBlockedUntil st \<le> now_client e"
  shows "calls \<noteq> []"
proof (cases "truthy did")
  case True
  then show ?thesis using assms(1) fetchDevice_calls by (fastforce simp: lookupDevice_def)
next
  case False
  then have "snd (safeSearchDevices st (now_client e) (provider e) cq) = [Search cq]"
    using assms(2) by (simp add: safeSearchDevices_open)
  then show ?thesis using assms(1) False
    by (auto simp: lookupDevice_def split: prod.splits sum.splits list.splits option.splits)
qed

lemma catchError_signal:
  "rate_limit_signal err \<Longrightarrow>
     catchError st t err = (Error429 CODE_429, st\<lparr>remoteBlockedUntil := t + 30000\<rparr>)"
  by (simp add: catchError_def rate_limit_signal_def)

lemma searchDevices_rate_limited:
  assumes run: "searchDevices st e query = (resp, st', calls)"
      and call: "c \<in> set calls"
      and err: "call_error (provider e) c = Some err"
      and sig: "rate_limit_signal err"
  shows "resp = Error429 CODE_429 \<and> remoteBlockedUntil st' = now_catch e + 30000"
proof -
  let ?st1 = "st\<lparr>lastCallTs := now_gate e\<rparr>"
  obtain sr scalls where
    s: "safeSearchDevices ?st1 (now_client e) (provider e) (Some (trim (the query))) = (sr, scalls)"
    by (cases "safeSearchDevices ?st1 (now_client e) (provider e) (Some (trim (the query)))")
  have passed: "searchDevices st e query =
      (case sr of
         Inl err \<Rightarrow> (let (r, st2) = catchError ?st1 (now_catch e) err in (r, st2, scalls))
       | Inr results \<Rightarrow>
           (SearchResults (filter_Boolean (map mapDeviceResult (take 8 results))), ?st1, scalls))"
    using run call s by (auto simp: searchDevices_def Let_def split: if_splits)
  then have "calls = scalls" using run by (auto split: sum.splits prod.splits)
  then have "sr = Inl err" using safeSearchDevices_error [OF s _ err] call by simp
  then show ?thesis using passed run catchError_signal [OF sig] by auto
qed

lemma checkEsim_rate_limited:
  assumes run: "checkEsim st e body = (resp, st', calls)"
      and call: "c \<in> set calls"
      and err: "call_error (provider e) c = Some err"
      and sig: "rate_limit_signal err"
  shows "resp = Error429 CODE_429 \<and> remoteBlockedUntil st' = now_catch e + 30000"
proof -
  let ?st1 = "st\<lparr>lastCallTs := now_gate e\<rparr>"
  let ?cq = "if truthy (body_query body) then Some (trim (the (body_query body))) else None"
  obtain lr lst lcalls where
    l: "lookupDevice ?st1 e (lookupKey body) (body_query body) ?cq (body_deviceId body)
          = (lr, lst, lcalls)"
    by (cases "lookupDevice ?st1 e (lookupKey body) (body_query body) ?cq (body_deviceId body)")
  have passed: "checkEsim st e body =
      (case lr of Inl err \<Rightarrow> (let (r, st3) = catchError lst (now_catch e) err in (r, st3, lcalls))
       | Inr r \<Rightarrow> (r, lst, lcalls))"
    using run call l
    by (auto simp: checkEsim_def Let_def lookupKey_def split: if_splits option.splits)
  then have "calls = lcalls" using run by (auto split: sum.splits prod.splits)
  then have "lr = Inl err" using lookupDevice_error [OF l _ err] call by simp
  moreover have "remoteBlockedUntil lst = remoteBlockedUntil ?st1"
    using lookupDevice_frame [OF l] by simp
  ultimately show ?thesis using passed run catchError_signal [OF sig, of lst "now_catch e"] by auto
qed

lemma searchDevices_open:
  assumes "\<not> blank query" and "5000 \<le> now_gate e - lastCallTs st"
      and "remoteBlockedUntil st \<le> now_gate e" and "now_gate e \<le> now_client e"
  shows "snd (snd (searchDevices st e query)) = [Search (Some (trim (the query)))] \<and>
         lastCallTs (fst (snd (searchDevices st e query))) = now_gate e"
  using assms
  by (auto simp: searchDevices_def blank_iff MIN_INTERVAL_MS_def Let_def safeSearchDevices_def
        catchError_def split: sum.splits option.splits)

lemma checkEsim_open:
  assumes valid: "\<not> blank (body_query body) \<or> truthy (body_deviceId body)"
      and miss: "cache st (lookupKey body) = None"
      and gate: "5000 \<le> now_gate e - lastCallTs st" "remoteBlockedUntil st \<le> now_gate e"
      and mono: "now_gate e \<le> now_client e"
  shows "snd (snd (checkEsim st e body)) \<noteq> [] \<and>
         lastCallTs (fst (snd (checkEsim st e body))) = now_gate e"
proof -
  let ?st1 = "st\<lparr>lastCallTs := now_gate e\<rparr>"
  let ?cq = "if truthy (body_query body) then Some (trim (the (body_query body))) else None"
  obtain lr lst lcalls where
    l: "lookupDevice ?st1 e (lookupKey body) (body_query body) ?cq (body_deviceId body)
          = (lr, lst, lcalls)"
    by (cases "lookupDevice ?st1 e (lookupKey body) (body_query body) ?cq (body_deviceId body)")
  have ne: "lcalls \<noteq> []" using lookupDevice_calls [OF l] gate mono by simp
  have ts: "lastCallTs lst = now_gate e" using lookupDevice_frame [OF l] by simp
  show ?thesis
  proof (cases lr)
    case (Inl err)
    obtain cr cst where c: "catchError lst (now_catch e) err = (cr, cst)"
      by (cases "catchError lst (now_catch e) err")
    then show ?thesis
      using valid miss gate l Inl ne ts catchError_frame [OF c]
      by (simp add: checkEsim_valid_unfold MIN_INTERVAL_MS_def)
  next
    case (Inr ok)
    then show ?thesis
      using valid miss gate l ne ts by (simp add: checkEsim_valid_unfold MIN_INTERVAL_MS_def)
  qed
qed

lemma buildPayload_found: "found (buildPayload d fr q sid t)"
  by (simp add: buildPayload_def Let_def)

lemma fetchDevice_found:
  "fetchDevice st up k q fr sid = (Inr (EsimAnswer p c), st', calls) \<Longrightarrow> found p \<and> \<not> c"
  by (auto simp: fetchDevice_def Let_def buildPayload_found split: sum.splits)

lemma checkEsim_with_id:
  assumes did: "truthy (body_deviceId body)"
      and run: "checkEsim st e body = (r, st', calls)"
  shows "Search q \<notin> set calls \<and> (\<forall>p. r = EsimAnswer p False \<longrightarrow> found p)"
proof -
  let ?st1 = "st\<lparr>lastCallTs := now_gate e\<rparr>"
  let ?cq = "if truthy (body_query body) then Some (trim (the (body_query body))) else None"
  obtain fr fst' fcalls where
    f: "fetchDevice ?st1 (provider e) (lookupKey body) (body_query body) None
          (the (body_deviceId body)) = (fr, fst', fcalls)"
    by (cases "fetchDevice ?st1 (provider e) (lookupKey body) (body_query body) None
          (the (body_deviceId body))")
  have l: "lookupDevice ?st1 e (lookupKey body) (body_query body) ?cq (body_deviceId body)
          = (fr, fst', fcalls)"
    using did f by (simp add: lookupDevice_def)
  have fc: "fcalls = [GetDevice (the (body_deviceId body))]" using f by (rule fetchDevice_calls)
  show ?thesis
  proof (cases fr)
    case (Inl err)
    obtain cr cst where c: "catchError fst' (now_catch e) err = (cr, cst)"
      by (cases "catchError fst' (now_catch e) err")
    then show ?thesis
      using did run l Inl fc catchError_not_answer [OF c]
      by (auto simp: checkEsim_valid_unfold split: option.splits if_splits)
  next
    case (Inr ok)
    then show ?thesis
      using did run l fc fetchDevice_found [of ?st1 "provider e" "lookupKey body"
          "body_query body" None "the (body_deviceId body)" _ _ fst' fcalls] f
      by (auto simp: checkEsim_valid_unfold split: option.splits if_splits)
  qed
qed

section \<open>Facts about the concrete scenarios\<close>

lemma demo_run_split: "demo_run d = (fst (demo_run d), fst (snd (demo_run d)), snd (snd (demo_run d)))"
  by simp

lemma demo_run_call: "GetDevice ''apple_iphone_15-12559'' \<in> set (snd (snd (demo_run d)))"
  by (simp add: demo_run_def checkEsim_def demo_body_def init_def demo_env_def demo_provider_def
        lookupDevice_def safeSearchDevices_def fetchDevice_def Let_def MIN_INTERVAL_MS_def
        normalizeCacheKey_def demo_result_def trim_def isSpace_def)

lemma demo_dev: "catalog_getDevice (provider (demo_env d)) i = Inr d"
  by (simp add: demo_env_def demo_provider_def)

lemma two_sims_entries:
  "entries_in_scan_order demo_device_two_sims =
     [entry ''Technology'' (VStr ''GSM / LTE''), entry ''SIM'' (VStr ''Nano-SIM'')] @
     entry ''Dual SIM'' (VArr [''Nano-SIM'', ''eSIM'']) # [entry ''Colors'' (VStr ''Black'')]"
  by (simp add: entries_in_scan_order_def demo_device_two_sims_def sim_section_def
        section_entries_def entry_def)

lemma name_contains_sim_entry [simp]:
  "name_contains_sim (entry n v) = includes_str (toLowerCase n) ''sim''"
  by (simp add: name_contains_sim_def entry_def)

lemma spec_val_entry [simp]: "spec_val (entry n v) = v"
  by (simp add: entry_def)

lemma after_search_eq: "after_search = init\<lparr>lastCallTs := 10000\<rparr>"
  by (simp add: after_search_def searchDevices_def demo_env_at_def demo_provider_def init_def
        safeSearchDevices_def MIN_INTERVAL_MS_def Let_def trim_def isSpace_def)

lemma unknown_body_key: "lookupKey unknown_body = ''q:nokia 9999''"
  by code_simp

lemma unknown_body_query: "trim ''Nokia 9999'' = ''Nokia 9999''"
  by code_simp

lemma after_miss_eq:
  "after_miss = \<lparr>cache = [''q:nokia 9999'' \<mapsto> NOT_FOUND_PAYLOAD], lastCallTs = 10000,
                  remoteBlockedUntil = 0\<rparr>"
proof -
  have valid: "\<not> blank (body_query unknown_body) \<or> truthy (body_deviceId unknown_body)"
    by (simp add: unknown_body_def blank_def isSpace_def)
  show ?thesis
    unfolding after_miss_def checkEsim_valid_unfold [OF valid] unknown_body_key
    by (simp add: unknown_body_def demo_env_at_def empty_provider_def init_def lookupDevice_def
          safeSearchDevices_def MIN_INTERVAL_MS_def unknown_body_query)
qed

lemma busy_run_results: "fst busy_run = SearchResults (replicate 7 demo_public)"
  unfolding busy_run_def by code_simp

lemma cooled_eq: "cooled = init\<lparr>lastCallTs := 10000, remoteBlockedUntil := 40100\<rparr>"
  by (simp add: cooled_def searchDevices_def demo_env_at_def limiting_provider_def TOO_MANY_429_def init_def
        safeSearchDevices_def catchError_def MIN_INTERVAL_MS_def Let_def trim_def isSpace_def)

lemma cooled_first:
  "handle init (demo_env_at 10000 limiting_provider) (SearchDevices (Some ''iphone'')) =
     (Error429 CODE_429, cooled, [Search (Some ''iphone'')])"
  unfolding cooled_eq
  by (simp add: searchDevices_def demo_env_at_def limiting_provider_def TOO_MANY_429_def init_def
        safeSearchDevices_def catchError_def MIN_INTERVAL_MS_def Let_def trim_def isSpace_def)

lemma demo_body_bound: "upstream_bound cooled (CheckEsim demo_body)"
  by (simp add: cooled_eq init_def demo_body_def blank_def isSpace_def)

lemma unknown_id_run:
  "checkEsim init (demo_env_at 10000 empty_provider) unknown_id_body =
     (Error500 ''Request failed with status code 404'', init\<lparr>lastCallTs := 10000\<rparr>,
      [GetDevice ''nokia_9999-0000''])"
  by (simp add: checkEsim_def unknown_id_body_def demo_env_at_def empty_provider_def init_def
        lookupDevice_def fetchDevice_def normalizeCacheKey_def catchError_def NOT_FOUND_404_def
        MIN_INTERVAL_MS_def Let_def)

lemma blocked_state_eq:
  "blocked_state = init\<lparr>lastCallTs := 15000, remoteBlockedUntil := 45100\<rparr>"
proof -
  have valid: "\<not> blank (body_query unknown_body) \<or> truthy (body_deviceId unknown_body)"
    by (simp add: unknown_body_def blank_def isSpace_def)
  show ?thesis
    unfolding blocked_state_def checkEsim_valid_unfold [OF valid] unknown_body_key
    by (simp add: unknown_body_def demo_env_at_def limiting_provider_def TOO_MANY_429_def init_def
          lookupDevice_def safeSearchDevices_def catchError_def MIN_INTERVAL_MS_def
          unknown_body_query)
qed

section \<open>The claims\<close>

subsection \<open>C1\<close>

text \<open>
  C1. Take any request and the state \<open>st\<close> it leaves, with the \<open>lastCallTs\<close> it recorded.
  A second request, to either endpoint, that is bound for the upstream provider and
  whose reading of the clock is less than 5000 ms after \<open>lastCallTs st\<close> is answered
  429 with the code \<open>LOCAL_THROTTLE\<close>; it makes no upstream call and leaves the state
  as it is. When the first request made an upstream call, the \<open>lastCallTs\<close> it recorded
  is its own reading of the clock at the gate.
\<close>

theorem local_throttle_rejects:
  assumes "handle st0 e1 r1 = (resp1, st, calls1)"
      and "upstream_bound st r2"
      and "now_gate e2 - lastCallTs st < 5000"
  shows "handle st e2 r2 = (Error429 LOCAL_THROTTLE, st, []) \<and>
         status (Error429 LOCAL_THROTTLE) = 429 \<and>
         (calls1 \<noteq> [] \<longrightarrow> lastCallTs st = now_gate e1)"
proof -
  have "handle st e2 r2 = (Error429 LOCAL_THROTTLE, st, [])"
    using assms(2,3) by (cases r2) (simp_all add: searchDevices_throttled checkEsim_throttled)
  moreover have "calls1 \<noteq> [] \<longrightarrow> lastCallTs st = now_gate e1"
  proof (cases r1)
    case (SearchDevices query)
    then show ?thesis using assms(1) searchDevices_frame [of st0 e1 query resp1 st calls1]
      by (auto split: if_splits)
  next
    case (CheckEsim body)
    then show ?thesis using assms(1) checkEsim_frame [of st0 e1 body resp1 st calls1]
      by (auto split: if_splits)
  qed
  ultimately show ?thesis by simp
qed

theorem local_throttle_rejects_witness:
  "handle after_search (demo_env_at 12000 empty_provider) (CheckEsim demo_body) =
     (Error429 LOCAL_THROTTLE, after_search, []) \<and>
   status (Error429 LOCAL_THROTTLE) = 429 \<and> lastCallTs after_search = 10000"
proof -
  have first: "handle init (demo_env_at 10000 (demo_provider demo_device_plain))
                 (SearchDevices (Some ''iphone'')) =
               (fst (searchDevices init (demo_env_at 10000 (demo_provider demo_device_plain))
                      (Some ''iphone'')),
                after_search,
                snd (snd (searchDevices init (demo_env_at 10000 (demo_provider demo_device_plain))
                      (Some ''iphone''))))"
    by (simp add: after_search_def)
  have calls: "snd (snd (searchDevices init (demo_env_at 10000 (demo_provider demo_device_plain))
                      (Some ''iphone''))) \<noteq> []"
    by (simp add: searchDevices_def demo_env_at_def demo_provider_def init_def
        safeSearchDevices_def MIN_INTERVAL_MS_def Let_def trim_def isSpace_def)
  have bound: "upstream_bound after_search (CheckEsim demo_body)"
    by (simp add: after_search_eq init_def demo_body_def blank_def isSpace_def)
  have near: "now_gate (demo_env_at 12000 empty_provider) - lastCallTs after_search < 5000"
    by (simp add: after_search_eq demo_env_at_def)
  show ?thesis
    using local_throttle_rejects [OF first bound near] calls
    by (simp add: demo_env_at_def)
qed

subsection \<open>C2\<close>

text \<open>
  C2, as the code has it. (1) When an upstream call of a request fails with status 429
  or with the code \<open>UPSTREAM_BLOCKED\<close>, the answer is 429 with the code 429 and
  \<open>remoteBlockedUntil\<close> becomes the reading of the clock in the \<^verbatim>\<open>catch\<close> block plus
  30000. (2) A request bound for the upstream provider whose reading of the clock is
  before \<open>remoteBlockedUntil\<close> is answered 429 with no upstream call and the state as it
  was; the code is \<open>LOCAL_THROTTLE\<close> when the reading is less than 5000 ms after
  \<open>lastCallTs\<close>, since that test comes first, and \<open>UPSTREAM_BLOCKED\<close> otherwise. (3) Once
  the clock has reached \<open>remoteBlockedUntil\<close>, and 5000 ms have passed since
  \<open>lastCallTs\<close>, such a request passes the gate: it records its reading in
  \<open>lastCallTs\<close> and, the clock not running backwards, calls the provider.
\<close>

theorem cooldown_after_rate_limit:
  "(handle st e r = (resp, st', calls) \<longrightarrow> c \<in> set calls \<longrightarrow>
    call_error (provider e) c = Some err \<longrightarrow> rate_limit_signal err \<longrightarrow>
      resp = Error429 CODE_429 \<and> remoteBlockedUntil st' = now_catch e + 30000) \<and>
   (upstream_bound sb rb \<longrightarrow> now_gate eb < remoteBlockedUntil sb \<longrightarrow>
      handle sb eb rb =
        (Error429 (if now_gate eb - lastCallTs sb < 5000 then LOCAL_THROTTLE
                   else UPSTREAM_BLOCKED), sb, [])) \<and>
   (upstream_bound sb rb \<longrightarrow> remoteBlockedUntil sb \<le> now_gate eb \<longrightarrow>
    5000 \<le> now_gate eb - lastCallTs sb \<longrightarrow> now_gate eb \<le> now_client eb \<longrightarrow>
      snd (snd (handle sb eb rb)) \<noteq> [] \<and>
      lastCallTs (fst (snd (handle sb eb rb))) = now_gate eb)"
proof (intro conjI impI)
  assume "handle st e r = (resp, st', calls)" "c \<in> set calls"
    "call_error (provider e) c = Some err" "rate_limit_signal err"
  then have "resp = Error429 CODE_429 \<and> remoteBlockedUntil st' = now_catch e + 30000"
    by (cases r) (auto dest: searchDevices_rate_limited checkEsim_rate_limited)
  then show "resp = Error429 CODE_429" "remoteBlockedUntil st' = now_catch e + 30000"
    by simp_all
next
  assume "upstream_bound sb rb" "now_gate eb < remoteBlockedUntil sb"
  then show "handle sb eb rb =
        (Error429 (if now_gate eb - lastCallTs sb < 5000 then LOCAL_THROTTLE
                   else UPSTREAM_BLOCKED), sb, [])"
    by (cases rb)
       (simp_all add: searchDevices_throttled searchDevices_blocked checkEsim_throttled
          checkEsim_blocked)
next
  assume a: "upstream_bound sb rb" "remoteBlockedUntil sb \<le> now_gate eb"
    "5000 \<le> now_gate eb - lastCallTs sb" "now_gate eb \<le> now_client eb"
  then have "snd (snd (handle sb eb rb)) \<noteq> [] \<and>
      lastCallTs (fst (snd (handle sb eb rb))) = now_gate eb"
    by (cases rb) (simp_all add: searchDevices_open checkEsim_open)
  then show "snd (snd (handle sb eb rb)) \<noteq> []"
    "lastCallTs (fst (snd (handle sb eb rb))) = now_gate eb"
    by simp_all
qed

theorem cooldown_after_rate_limit_witness:
  "fst (handle init (demo_env_at 10000 limiting_provider) (SearchDevices (Some ''iphone''))) =
     Error429 CODE_429 \<and>
   remoteBlockedUntil cooled = 40100 \<and>
   handle cooled (demo_env_at 20000 empty_provider) (CheckEsim demo_body) =
     (Error429 UPSTREAM_BLOCKED, cooled, []) \<and>
   snd (snd (handle cooled (demo_env_at 40100 empty_provider) (CheckEsim demo_body))) \<noteq> [] \<and>
   lastCallTs (fst (snd (handle cooled (demo_env_at 40100 empty_provider) (CheckEsim demo_body))))
     = 40100"
proof -
  have err: "call_error (provider (demo_env_at 10000 limiting_provider)) (Search (Some ''iphone''))
      = Some TOO_MANY_429"
    by (simp add: demo_env_at_def limiting_provider_def TOO_MANY_429_def)
  have sig: "rate_limit_signal TOO_MANY_429"
    by (simp add: rate_limit_signal_def TOO_MANY_429_def)
  have inside: "now_gate (demo_env_at 20000 empty_provider) < remoteBlockedUntil cooled"
    by (simp add: cooled_eq demo_env_at_def)
  have far: "\<not> now_gate (demo_env_at 20000 empty_provider) - lastCallTs cooled < 5000"
    by (simp add: cooled_eq demo_env_at_def)
  have after: "remoteBlockedUntil cooled \<le> now_gate (demo_env_at 40100 empty_provider)"
    "5000 \<le> now_gate (demo_env_at 40100 empty_provider) - lastCallTs cooled"
    "now_gate (demo_env_at 40100 empty_provider) \<le> now_client (demo_env_at 40100 empty_provider)"
    by (simp_all add: cooled_eq demo_env_at_def)
  have g: "now_gate (demo_env_at 40100 empty_provider) = 40100"
    by (simp add: demo_env_at_def)
  from cooldown_after_rate_limit
         [where st = init and e = "demo_env_at 10000 limiting_provider"
            and r = "SearchDevices (Some ''iphone'')" and resp = "Error429 CODE_429"
            and st' = cooled and calls = "[Search (Some ''iphone'')]"
            and c = "Search (Some ''iphone'')" and sb = cooled and rb = "CheckEsim demo_body"
            and eb = "demo_env_at 20000 empty_provider"]
       cooled_first err sig demo_body_bound inside far
  have ab: "remoteBlockedUntil cooled = now_catch (demo_env_at 10000 limiting_provider) + 30000"
    "handle cooled (demo_env_at 20000 empty_provider) (CheckEsim demo_body) =
       (Error429 UPSTREAM_BLOCKED, cooled, [])"
    by simp_all
  from cooldown_after_rate_limit
         [where sb = cooled and rb = "CheckEsim demo_body"
            and eb = "demo_env_at 40100 empty_provider"]
       demo_body_bound after
  have c: "snd (snd (handle cooled (demo_env_at 40100 empty_provider) (CheckEsim demo_body))) \<noteq> []"
    "lastCallTs (fst (snd (handle cooled (demo_env_at 40100 empty_provider) (CheckEsim demo_body))))
       = now_gate (demo_env_at 40100 empty_provider)"
    by blast+
  show ?thesis using ab c cooled_first unfolding g by (simp add: demo_env_at_def)
qed

text \<open>
  C2 as stated fails: 2000 ms after the gate let through a request that the provider
  answered with 429, a request is rejected with \<open>LOCAL_THROTTLE\<close>, not
  \<open>UPSTREAM_BLOCKED\<close>, although the clock is before \<open>remoteBlockedUntil\<close>.
\<close>

theorem blocked_request_counterexample:
  "remoteBlockedUntil cooled = 40100 \<and>
   upstream_bound cooled (SearchDevices (Some ''pixel 8'')) \<and>
   now_gate (demo_env_at 12000 empty_provider) < remoteBlockedUntil cooled \<and>
   handle cooled (demo_env_at 12000 empty_provider) (SearchDevices (Some ''pixel 8'')) =
     (Error429 LOCAL_THROTTLE, cooled, [])"
  by (simp add: cooled_eq init_def blank_def isSpace_def demo_env_at_def searchDevices_def
        MIN_INTERVAL_MS_def Let_def trim_def)

subsection \<open>C3\<close>

text \<open>
  C3. In a reachable state, a \<^verbatim>\<open>/api/check-esim\<close> request whose key is in the cache gets
  the stored payload with \<^verbatim>\<open>fromCache: true\<close>, whatever \<open>lastCallTs\<close> and
  \<open>remoteBlockedUntil\<close> are and whatever the clock and the provider would say; the state
  is left as it is (the gate reserves nothing) and no upstream call is made. The payload
  is any cached one, a not-found payload as well.
\<close>

theorem cache_hit_bypasses_gate:
  assumes "reachable st" and "cache st (lookupKey body) = Some p"
  shows "checkEsim (st\<lparr>lastCallTs := t, remoteBlockedUntil := b\<rparr>) e body =
           (EsimAnswer p True, st\<lparr>lastCallTs := t, remoteBlockedUntil := b\<rparr>, [])"
proof -
  have "cache st ''q:'' = None" using assms(1) by (rule reachable_no_blank_key)
  then have "lookupKey body \<noteq> ''q:''" using assms(2) by auto
  then have "\<not> blank (body_query body) \<or> truthy (body_deviceId body)"
    using lookupKey_blank by blast
  then show ?thesis using assms(2) by (intro checkEsim_hit) simp_all
qed

theorem cache_hit_bypasses_gate_witness:
  "checkEsim (after_miss\<lparr>lastCallTs := 10000, remoteBlockedUntil := 40100\<rparr>)
      (demo_env_at 10200 empty_provider) unknown_body =
     (EsimAnswer NOT_FOUND_PAYLOAD True,
      after_miss\<lparr>lastCallTs := 10000, remoteBlockedUntil := 40100\<rparr>, [])"
proof -
  have "handle init (demo_env_at 10000 empty_provider) (CheckEsim unknown_body) =
          (fst (checkEsim init (demo_env_at 10000 empty_provider) unknown_body), after_miss,
           snd (snd (checkEsim init (demo_env_at 10000 empty_provider) unknown_body)))"
    by (simp add: after_miss_def)
  then have reach: "reachable after_miss"
    by (rule reachable_step [OF reachable_init])
  have hit: "cache after_miss (lookupKey unknown_body) = Some NOT_FOUND_PAYLOAD"
    by (simp add: after_miss_eq unknown_body_key)
  show ?thesis by (rule cache_hit_bypasses_gate [OF reach hit])
qed

subsection \<open>C4\<close>

text \<open>
  C4, as the code has it. The claim says that \<open>simRaw\<close> is the value of the last entry
  whose name contains "sim". The scan skips an entry whose value is absent or the empty
  string (line 166), so the last entry that counts is the last one, in scan order, whose
  name contains "sim" and whose value is truthy: when the entries are \<open>pre @ w # post\<close>,
  \<open>w\<close> is such an entry and no entry of \<open>post\<close> is, \<open>simText\<close> after the scan is the text
  captured from \<open>w\<close>, whatever \<open>pre\<close> holds (no early exit, the first match does not
  win), and \<open>simRaw\<close> is that text, or null when the text is empty.
\<close>

theorem last_truthy_match_wins:
  assumes "checkEsim st e body = (r, st', calls)"
      and "GetDevice sid \<in> set calls"
      and "catalog_getDevice (provider e) sid = Inr d"
      and "entries_in_scan_order d = pre @ w # post"
      and "name_contains_sim w" and "truthy_value (spec_val w)"
      and "\<forall>x \<in> set post. \<not> (name_contains_sim x \<and> truthy_value (spec_val x))"
  shows "scanDevice d = Some (captureText (spec_val w)) \<and>
         (\<exists>p. r = EsimAnswer p False \<and>
              simRaw p = (if captureText (spec_val w) = [] then None
                          else Some (captureText (spec_val w))))"
proof -
  have scan: "scanDevice d = Some (captureText (spec_val w))"
    using assms(4-7) by (intro scanDevice_last_match) (auto simp: sim_match_def)
  obtain fr where r: "r = EsimAnswer (buildPayload d fr (body_query body) sid (scanDevice d)) False"
    using checkEsim_answer [OF assms(1-3)] by blast
  have "simRaw (buildPayload d fr (body_query body) sid (scanDevice d)) =
          (if captureText (spec_val w) = [] then None else Some (captureText (spec_val w)))"
    using scan by (simp add: buildPayload_def Let_def)
  then show ?thesis using scan r by blast
qed

theorem last_truthy_match_wins_witness:
  "scanDevice demo_device_two_sims = Some ''Nano-SIM | eSIM'' \<and>
   (\<exists>p. fst (demo_run demo_device_two_sims) = EsimAnswer p False \<and>
        simRaw p = Some ''Nano-SIM | eSIM'')"
proof -
  have w: "name_contains_sim (entry ''Dual SIM'' (VArr [''Nano-SIM'', ''eSIM'']))"
    by code_simp
  have post: "\<forall>x \<in> set [entry ''Colors'' (VStr ''Black'')].
      \<not> (name_contains_sim x \<and> truthy_value (spec_val x))"
    by code_simp
  show ?thesis
    using last_truthy_match_wins
      [OF demo_run_split [unfolded demo_run_def] demo_run_call [unfolded demo_run_def]
          demo_dev two_sims_entries w _ post]
    by (simp add: captureText_def demo_run_def)
qed

text \<open>
  C4 as stated fails: of two entries named "SIM" and "SIM 2", the second with the empty
  string as its value, the first one gives \<open>simRaw\<close>.
\<close>

theorem last_sim_named_entry_counterexample:
  "filter name_contains_sim (entries_in_scan_order demo_device_last_empty) =
     [entry ''SIM'' (VStr ''Nano-SIM''), entry ''SIM 2'' (VStr '''')] \<and>
   fst (demo_run demo_device_last_empty) =
     EsimAnswer \<lparr>found = True, deviceName = Some ''Apple iPhone 15'',
                 deviceId = Some ''apple_iphone_15-12559'', simRaw = Some ''Nano-SIM'',
                 supportsEsim = Some False, message = MSG_NO_EVIDENCE\<rparr> False"
  unfolding demo_run_def by code_simp

subsection \<open>C5\<close>

text \<open>
  C5, as the code has it. When the last entry whose name contains "sim" and whose value
  is truthy captures a non-empty text, \<open>simRaw\<close> is that text: the elements joined with
  " | " for an array, the string itself otherwise; and \<open>supportsEsim\<close> is true when the
  lowercased text contains "esim" and false otherwise.
\<close>

theorem sim_text_and_esim_support:
  assumes "checkEsim st e body = (r, st', calls)"
      and "GetDevice sid \<in> set calls"
      and "catalog_getDevice (provider e) sid = Inr d"
      and "entries_in_scan_order d = pre @ w # post"
      and "name_contains_sim w" and "truthy_value (spec_val w)"
      and "\<forall>x \<in> set post. \<not> (name_contains_sim x \<and> truthy_value (spec_val x))"
      and "captureText (spec_val w) \<noteq> []"
  shows "\<exists>p t. r = EsimAnswer p False \<and> simRaw p = Some t \<and>
           (case spec_val w of VArr xs \<Rightarrow> t = join '' | '' xs | VStr v \<Rightarrow> t = v
            | VAbsent \<Rightarrow> False) \<and>
           supportsEsim p = Some (includes_str (toLowerCase t) ''esim'')"
proof -
  have scan: "scanDevice d = Some (captureText (spec_val w))"
    using assms(4-7) by (intro scanDevice_last_match) (auto simp: sim_match_def)
  obtain fr where r: "r = EsimAnswer (buildPayload d fr (body_query body) sid (scanDevice d)) False"
    using checkEsim_answer [OF assms(1-3)] by blast
  let ?t = "captureText (spec_val w)"
  have p: "simRaw (buildPayload d fr (body_query body) sid (scanDevice d)) = Some ?t"
          "supportsEsim (buildPayload d fr (body_query body) sid (scanDevice d)) =
             Some (includes_str (toLowerCase ?t) ''esim'')"
    using scan assms(8) by (simp_all add: buildPayload_text)
  have "case spec_val w of VArr xs \<Rightarrow> ?t = join '' | '' xs | VStr v \<Rightarrow> ?t = v | VAbsent \<Rightarrow> False"
    using assms(6) by (cases "spec_val w") (simp_all add: captureText_def)
  then show ?thesis using r p by blast
qed

theorem sim_text_and_esim_support_witness:
  "\<exists>p t. fst (demo_run demo_device_two_sims) = EsimAnswer p False \<and> simRaw p = Some t \<and>
         t = join '' | '' [''Nano-SIM'', ''eSIM''] \<and> supportsEsim p = Some True"
proof -
  have w: "name_contains_sim (entry ''Dual SIM'' (VArr [''Nano-SIM'', ''eSIM'']))"
    by code_simp
  have post: "\<forall>x \<in> set [entry ''Colors'' (VStr ''Black'')].
      \<not> (name_contains_sim x \<and> truthy_value (spec_val x))"
    by code_simp
  have esim: "includes_str (toLowerCase (join '' | '' [''Nano-SIM'', ''eSIM''])) ''esim''"
    by code_simp
  show ?thesis
    using sim_text_and_esim_support
      [OF demo_run_split [unfolded demo_run_def] demo_run_call [unfolded demo_run_def]
          demo_dev two_sims_entries w _ post] esim
    by (auto simp: captureText_def demo_run_def)
qed

text \<open>
  C5 as stated fails: a device whose only entry named "SIM" has the empty string as its
  value gets \<open>simRaw\<close> null and \<open>supportsEsim\<close> null, neither true nor false.
\<close>

theorem sim_named_entry_counterexample:
  "filter name_contains_sim (entries_in_scan_order demo_device_blank_sim) =
     [entry ''SIM'' (VStr '''')] \<and>
   fst (demo_run demo_device_blank_sim) =
     EsimAnswer \<lparr>found = True, deviceName = Some ''Apple iPhone 15'',
                 deviceId = Some ''apple_iphone_15-12559'', simRaw = None,
                 supportsEsim = None, message = MSG_NO_SIM_DATA\<rparr> False"
  unfolding demo_run_def by code_simp

subsection \<open>C6\<close>

text \<open>
  C6. When the device that \<^verbatim>\<open>getDevice\<close> delivered to a \<^verbatim>\<open>/api/check-esim\<close> request has
  no specification entry whose name contains "sim" (case-insensitively), the payload
  returned has \<open>found\<close> true, \<open>simRaw\<close> null and \<open>supportsEsim\<close> null.
\<close>

theorem no_sim_entry_gives_null:
  assumes "checkEsim st e body = (r, st', calls)"
      and "GetDevice sid \<in> set calls"
      and "catalog_getDevice (provider e) sid = Inr d"
      and "\<forall>s \<in> set (entries_in_scan_order d). \<not> name_contains_sim s"
  shows "\<exists>p. r = EsimAnswer p False \<and> found p \<and> simRaw p = None \<and> supportsEsim p = None"
proof -
  have "filter sim_match (entries_in_scan_order d) = []"
    using assms(4) by (auto simp: filter_empty_conv sim_match_def)
  then have "scanDevice d = None" by (simp add: scanDevice_eq last_match_text_def)
  then have "\<not> truthy (scanDevice d)" by simp
  from buildPayload_no_text [OF this] checkEsim_answer [OF assms(1-3)]
  show ?thesis by blast
qed

theorem no_sim_entry_gives_null_witness:
  "\<exists>p. fst (checkEsim init (demo_env demo_device_plain) demo_body) = EsimAnswer p False \<and>
       found p \<and> simRaw p = None \<and> supportsEsim p = None"
proof -
  have run: "checkEsim init (demo_env demo_device_plain) demo_body =
    (fst (checkEsim init (demo_env demo_device_plain) demo_body),
     fst (snd (checkEsim init (demo_env demo_device_plain) demo_body)),
     snd (snd (checkEsim init (demo_env demo_device_plain) demo_body)))"
    by simp
  have call: "GetDevice ''apple_iphone_15-12559''
                \<in> set (snd (snd (checkEsim init (demo_env demo_device_plain) demo_body)))"
    by code_simp
  have dev: "catalog_getDevice (provider (demo_env demo_device_plain)) ''apple_iphone_15-12559''
               = Inr demo_device_plain"
    by (simp add: demo_env_def demo_provider_def)
  have none: "\<forall>s \<in> set (entries_in_scan_order demo_device_plain). \<not> name_contains_sim s"
    by code_simp
  show ?thesis using no_sim_entry_gives_null [OF run call dev none] .
qed

subsection \<open>C7\<close>

text \<open>
  C7, as the code has it. A \<^verbatim>\<open>/api/check-esim\<close> request without a device id that passes
  the validation, misses the cache and passes the gate, and whose search returns no
  array or an empty one, is answered with the payload \<open>found: false\<close>, which is stored
  in the cache under the key of the request. A request with a device id never searches,
  and a fresh answer to it always has \<open>found: true\<close>.
\<close>

theorem search_miss_is_cached:
  "(\<not> truthy (body_deviceId body) \<longrightarrow> \<not> blank (body_query body) \<longrightarrow>
    cache st (lookupKey body) = None \<longrightarrow>
    5000 \<le> now_gate e - lastCallTs st \<longrightarrow> remoteBlockedUntil st \<le> now_gate e \<longrightarrow>
    now_gate e \<le> now_client e \<longrightarrow>
    search_search (provider e) (Some (trim (the (body_query body)))) \<in> {Inr None, Inr (Some [])} \<longrightarrow>
      checkEsim st e body =
        (EsimAnswer NOT_FOUND_PAYLOAD False,
         st\<lparr>lastCallTs := now_gate e,
            cache := (cache st)(lookupKey body \<mapsto> NOT_FOUND_PAYLOAD)\<rparr>,
         [Search (Some (trim (the (body_query body))))]) \<and>
      \<not> found NOT_FOUND_PAYLOAD) \<and>
   (truthy (body_deviceId body) \<longrightarrow> checkEsim st e body = (r, st', calls) \<longrightarrow>
      Search q \<notin> set calls) \<and>
   (truthy (body_deviceId body) \<longrightarrow> checkEsim st e body = (EsimAnswer p False, st', calls) \<longrightarrow>
      found p)"
proof (intro conjI impI)
  assume a: "\<not> truthy (body_deviceId body)" "\<not> blank (body_query body)"
    "cache st (lookupKey body) = None" "5000 \<le> now_gate e - lastCallTs st"
    "remoteBlockedUntil st \<le> now_gate e" "now_gate e \<le> now_client e"
    "search_search (provider e) (Some (trim (the (body_query body)))) \<in> {Inr None, Inr (Some [])}"
  have q: "truthy (body_query body)" using a(2) by (simp add: blank_iff)
  show "checkEsim st e body =
        (EsimAnswer NOT_FOUND_PAYLOAD False,
         st\<lparr>lastCallTs := now_gate e,
            cache := (cache st)(lookupKey body \<mapsto> NOT_FOUND_PAYLOAD)\<rparr>,
         [Search (Some (trim (the (body_query body))))])"
    using a q
    by (auto simp: checkEsim_valid_unfold MIN_INTERVAL_MS_def lookupDevice_def
          safeSearchDevices_def)
  show "\<not> found NOT_FOUND_PAYLOAD" by (simp add: NOT_FOUND_PAYLOAD_def)
next
  assume "truthy (body_deviceId body)" "checkEsim st e body = (r, st', calls)"
  then show "Search q \<notin> set calls" using checkEsim_with_id by blast
next
  assume "truthy (body_deviceId body)" "checkEsim st e body = (EsimAnswer p False, st', calls)"
  then show "found p" using checkEsim_with_id by blast
qed

theorem search_miss_is_cached_witness:
  "checkEsim init (demo_env_at 10000 empty_provider) unknown_body =
     (EsimAnswer NOT_FOUND_PAYLOAD False,
      init\<lparr>lastCallTs := 10000, cache := (cache init)(''q:nokia 9999'' \<mapsto> NOT_FOUND_PAYLOAD)\<rparr>,
      [Search (Some ''Nokia 9999'')]) \<and>
   \<not> found NOT_FOUND_PAYLOAD \<and>
   Search (Some ''Nokia 9999'')
     \<notin> set (snd (snd (checkEsim init (demo_env_at 10000 empty_provider) unknown_id_body))) \<and>
   (\<exists>p. fst (checkEsim init (demo_env demo_device_plain) unknown_id_body) = EsimAnswer p False \<and>
        found p)"
proof -
  have h: "\<not> truthy (body_deviceId unknown_body)" "\<not> blank (body_query unknown_body)"
    "cache init (lookupKey unknown_body) = None"
    "5000 \<le> now_gate (demo_env_at 10000 empty_provider) - lastCallTs init"
    "remoteBlockedUntil init \<le> now_gate (demo_env_at 10000 empty_provider)"
    "now_gate (demo_env_at 10000 empty_provider) \<le> now_client (demo_env_at 10000 empty_provider)"
    "search_search (provider (demo_env_at 10000 empty_provider))
       (Some (trim (the (body_query unknown_body)))) \<in> {Inr None, Inr (Some [])}"
    by (simp_all add: unknown_body_def blank_def isSpace_def init_def demo_env_at_def
          empty_provider_def)
  have q: "trim (the (body_query unknown_body)) = ''Nokia 9999''"
    by (simp add: unknown_body_def unknown_body_query)
  have g: "now_gate (demo_env_at 10000 empty_provider) = 10000" by (simp add: demo_env_at_def)
  from search_miss_is_cached [where body = unknown_body and st = init
         and e = "demo_env_at 10000 empty_provider"] h
  have one: "checkEsim init (demo_env_at 10000 empty_provider) unknown_body =
     (EsimAnswer NOT_FOUND_PAYLOAD False,
      init\<lparr>lastCallTs := 10000, cache := (cache init)(''q:nokia 9999'' \<mapsto> NOT_FOUND_PAYLOAD)\<rparr>,
      [Search (Some ''Nokia 9999'')])" "\<not> found NOT_FOUND_PAYLOAD"
    unfolding q g unknown_body_key by blast+
  have did: "truthy (body_deviceId unknown_id_body)" by (simp add: unknown_id_body_def)
  from search_miss_is_cached [where body = unknown_id_body and st = init
         and e = "demo_env_at 10000 empty_provider"
         and r = "Error500 ''Request failed with status code 404''"
         and st' = "init\<lparr>lastCallTs := 10000\<rparr>" and calls = "[GetDevice ''nokia_9999-0000'']"
         and q = "Some ''Nokia 9999''"] did unknown_id_run
  have two: "Search (Some ''Nokia 9999'')
     \<notin> set (snd (snd (checkEsim init (demo_env_at 10000 empty_provider) unknown_id_body)))"
    by simp
  have ans: "fst (checkEsim init (demo_env demo_device_plain) unknown_id_body) =
      EsimAnswer (buildPayload demo_device_plain None (Some ''Nokia 9999'') ''nokia_9999-0000''
                    (scanDevice demo_device_plain)) False"
    by (simp add: checkEsim_def unknown_id_body_def demo_env_def demo_provider_def init_def
        lookupDevice_def fetchDevice_def normalizeCacheKey_def MIN_INTERVAL_MS_def Let_def)
  from search_miss_is_cached [where body = unknown_id_body and st = init
         and e = "demo_env demo_device_plain"
         and p = "buildPayload demo_device_plain None (Some ''Nokia 9999'') ''nokia_9999-0000''
                    (scanDevice demo_device_plain)"
         and st' = "fst (snd (checkEsim init (demo_env demo_device_plain) unknown_id_body))"
         and calls = "snd (snd (checkEsim init (demo_env demo_device_plain) unknown_id_body))"]
       did ans
  have three: "found (buildPayload demo_device_plain None (Some ''Nokia 9999'') ''nokia_9999-0000''
                    (scanDevice demo_device_plain))"
    by (metis prod.collapse)
  show ?thesis using one two three ans by blast
qed

text \<open>
  C7 as stated fails: for a device id the provider does not know (its \<^verbatim>\<open>getDevice\<close>
  fails with status 404) and a query the search has no result for, the answer is 500
  and nothing is stored in the cache.
\<close>

theorem unknown_device_id_counterexample:
  "truthy (body_deviceId unknown_id_body) \<and>
   search_search empty_provider (body_query unknown_id_body) = Inr (Some []) \<and>
   checkEsim init (demo_env_at 10000 empty_provider) unknown_id_body =
     (Error500 ''Request failed with status code 404'', init\<lparr>lastCallTs := 10000\<rparr>,
      [GetDevice ''nokia_9999-0000'']) \<and>
   cache (init\<lparr>lastCallTs := 10000\<rparr>) (lookupKey unknown_id_body) = None"
  using unknown_id_run by (simp add: unknown_id_body_def empty_provider_def init_def)

subsection \<open>C8\<close>

text \<open>
  C8, where the code falls short of it. \<open>safeSearchDevices\<close> throws \<open>UPSTREAM_BLOCKED\<close>
  and calls nothing when the clock is before \<open>remoteBlockedUntil\<close>; the call of
  \<^verbatim>\<open>getDevice\<close> on line 157 has no such test. A request A passes the gate at 10000 and
  waits for its search. A request B passes the gate at 15000, its search fails with
  429, and its \<^verbatim>\<open>catch\<close> block, at 15100, sets \<open>remoteBlockedUntil\<close> to 45100. When A goes
  on, in that state, \<open>safeSearchDevices\<close> at 15200 would throw, but lines 156 to 208
  call \<^verbatim>\<open>getDevice\<close> and answer.
\<close>

theorem getDevice_called_while_blocked:
  "remoteBlockedUntil blocked_state = 45100 \<and>
   safeSearchDevices blocked_state 15200 (demo_provider demo_device_two_sims) (Some ''iPhone 15'')
     = (Inl BLOCKED_ERROR, []) \<and>
   snd (snd (fetchDevice blocked_state (demo_provider demo_device_two_sims) (lookupKey demo_body)
               (body_query demo_body) (Some demo_result) (res_id demo_result)))
     = [GetDevice ''apple_iphone_15-12559''] \<and>
   (\<exists>p. fst (fetchDevice blocked_state (demo_provider demo_device_two_sims) (lookupKey demo_body)
               (body_query demo_body) (Some demo_result) (res_id demo_result))
        = Inr (EsimAnswer p False))"
  by (simp add: blocked_state_eq safeSearchDevices_def fetchDevice_def demo_provider_def
        demo_result_def Let_def)

subsection \<open>C9\<close>

text \<open>
  C9. A \<^verbatim>\<open>/api/search-devices\<close> request whose query is absent, empty or white space only
  is answered 400, with no upstream call and the state as it was. When the answer is a
  result list, it has at most 8 items: the first 8 elements of the array the provider
  returned for the trimmed query (no element when it returned no array), without the
  \<^verbatim>\<open>null\<close> elements, each mapped to its \<open>id\<close>, \<open>name\<close>, \<open>image\<close> and \<open>brand\<close>.
\<close>

theorem search_devices_contract:
  "(blank query \<longrightarrow>
      searchDevices st e query = (Error400, st, []) \<and> status Error400 = 400) \<and>
   (searchDevices st e query = (SearchResults rs, st', calls) \<longrightarrow>
      length rs \<le> 8 \<and>
      (\<exists>raw. search_search (provider e) (Some (trim (the query))) = Inr raw \<and>
         rs = filter_Boolean (map mapDeviceResult
                (take 8 (case raw of None \<Rightarrow> [] | Some xs \<Rightarrow> xs))) \<and>
         (\<forall>x \<in> set rs. \<exists>d. Some d \<in> set (take 8 (case raw of None \<Rightarrow> [] | Some xs \<Rightarrow> xs)) \<and>
             x = \<lparr>pub_id = res_id d, pub_name = res_name d,
                  image = or_null (thumbnail d), pub_brand = or_null (brand d)\<rparr>)))"
proof (intro conjI impI)
  assume "blank query"
  then show "searchDevices st e query = (Error400, st, [])" by (rule searchDevices_blank)
next
  show "status Error400 = 400" by simp
next
  assume run: "searchDevices st e query = (SearchResults rs, st', calls)"
  then obtain raw where raw: "search_search (provider e) (Some (trim (the query))) = Inr raw"
    "rs = filter_Boolean (map mapDeviceResult (take 8 (case raw of None \<Rightarrow> [] | Some xs \<Rightarrow> xs)))"
    using searchDevices_results by blast
  let ?xs = "take 8 (case raw of None \<Rightarrow> [] | Some xs \<Rightarrow> xs)"
  have "length rs \<le> length (map mapDeviceResult ?xs)"
    unfolding raw(2) by (rule length_filter_Boolean)
  then show "length rs \<le> 8" by simp
  have "\<forall>x \<in> set rs. \<exists>d. Some d \<in> set ?xs \<and>
             x = \<lparr>pub_id = res_id d, pub_name = res_name d,
                  image = or_null (thumbnail d), pub_brand = or_null (brand d)\<rparr>"
  proof
    fix x assume "x \<in> set rs"
    then have "Some x \<in> mapDeviceResult ` set ?xs"
      unfolding raw(2) by (simp add: set_filter_Boolean)
    then obtain y where "y \<in> set ?xs" "mapDeviceResult y = Some x" by force
    then show "\<exists>d. Some d \<in> set ?xs \<and>
             x = \<lparr>pub_id = res_id d, pub_name = res_name d,
                  image = or_null (thumbnail d), pub_brand = or_null (brand d)\<rparr>"
      by (auto simp: mapDeviceResult_Some)
  qed
  with raw show "\<exists>raw. search_search (provider e) (Some (trim (the query))) = Inr raw \<and>
         rs = filter_Boolean (map mapDeviceResult
                (take 8 (case raw of None \<Rightarrow> [] | Some xs \<Rightarrow> xs))) \<and>
         (\<forall>x \<in> set rs. \<exists>d. Some d \<in> set (take 8 (case raw of None \<Rightarrow> [] | Some xs \<Rightarrow> xs)) \<and>
             x = \<lparr>pub_id = res_id d, pub_name = res_name d,
                  image = or_null (thumbnail d), pub_brand = or_null (brand d)\<rparr>)"
    by blast
qed

theorem search_devices_contract_witness:
  "searchDevices init (demo_env_at 10000 busy_provider) (Some ''  '') = (Error400, init, []) \<and>
   status Error400 = 400 \<and>
   fst busy_run = SearchResults (replicate 7 demo_public) \<and>
   length (replicate 7 demo_public) \<le> 8 \<and>
   (\<exists>raw. search_search busy_provider (Some ''iphone'') = Inr raw \<and>
      replicate 7 demo_public =
        filter_Boolean (map mapDeviceResult (take 8 (case raw of None \<Rightarrow> [] | Some xs \<Rightarrow> xs))))"
proof -
  have b: "blank (Some ''  '')" by (simp add: blank_def isSpace_def)
  have run: "searchDevices init (demo_env_at 10000 busy_provider) (Some '' iphone '') =
               (SearchResults (replicate 7 demo_public), fst (snd busy_run), snd (snd busy_run))"
    using busy_run_results by (metis busy_run_def prod.collapse)
  have t: "trim (the (Some '' iphone '')) = ''iphone''" by code_simp
  from search_devices_contract
         [where query = "Some ''  ''" and st = init and e = "demo_env_at 10000 busy_provider"] b
  have first: "searchDevices init (demo_env_at 10000 busy_provider) (Some ''  '') =
                 (Error400, init, [])"
    by blast
  from search_devices_contract
         [where query = "Some '' iphone ''" and st = init
            and e = "demo_env_at 10000 busy_provider" and rs = "replicate 7 demo_public"
            and st' = "fst (snd busy_run)" and calls = "snd (snd busy_run)"] run
  have second: "length (replicate 7 demo_public) \<le> 8 \<and>
    (\<exists>raw. search_search (provider (demo_env_at 10000 busy_provider))
              (Some (trim (the (Some '' iphone '')))) = Inr raw \<and>
      replicate 7 demo_public =
        filter_Boolean (map mapDeviceResult (take 8 (case raw of None \<Rightarrow> [] | Some xs \<Rightarrow> xs))))"
    by blast
  have p: "provider (demo_env_at 10000 busy_provider) = busy_provider"
    by (simp add: demo_env_at_def)
  show ?thesis using first second busy_run_results unfolding t p by simp
qed

subsection \<open>C10\<close>

text \<open>
  C10. The scan leaves \<open>simText\<close> as it is at an entry whose value is absent or the
  empty string, whatever its name. So when every entry whose name contains "sim" has a
  falsy value or captures the empty text, the handler answers with \<open>simRaw\<close> null,
  \<open>supportsEsim\<close> null and the message of the branch without SIM data.
\<close>

theorem falsy_sim_value_skipped:
  "scanEntry simText (Some (s\<lparr>spec_val := VAbsent\<rparr>)) = simText \<and>
   scanEntry simText (Some (s\<lparr>spec_val := VStr []\<rparr>)) = simText \<and>
   (checkEsim st e body = (r, st', calls) \<longrightarrow>
    GetDevice sid \<in> set calls \<longrightarrow>
    catalog_getDevice (provider e) sid = Inr d \<longrightarrow>
    (\<forall>x \<in> set (entries_in_scan_order d).
        name_contains_sim x \<longrightarrow> \<not> truthy_value (spec_val x) \<or> captureText (spec_val x) = []) \<longrightarrow>
    (\<exists>p. r = EsimAnswer p False \<and> found p \<and> simRaw p = None \<and> supportsEsim p = None \<and>
         message p = MSG_NO_SIM_DATA))"
proof (intro conjI impI)
  show "scanEntry simText (Some (s\<lparr>spec_val := VAbsent\<rparr>)) = simText"
    by (simp add: scanEntry_def)
  show "scanEntry simText (Some (s\<lparr>spec_val := VStr []\<rparr>)) = simText"
    by (simp add: scanEntry_def)
next
  assume run: "checkEsim st e body = (r, st', calls)"
     and call: "GetDevice sid \<in> set calls"
     and dev: "catalog_getDevice (provider e) sid = Inr d"
     and empty: "\<forall>x \<in> set (entries_in_scan_order d).
        name_contains_sim x \<longrightarrow> \<not> truthy_value (spec_val x) \<or> captureText (spec_val x) = []"
  let ?ms = "filter sim_match (entries_in_scan_order d)"
  have "\<not> truthy (scanDevice d)"
  proof (cases "?ms = []")
    case True
    then show ?thesis by (simp add: scanDevice_eq last_match_text_def)
  next
    case False
    then have "last ?ms \<in> set ?ms" by (rule last_in_set)
    then have "last ?ms \<in> {x \<in> set (entries_in_scan_order d). sim_match x}"
      by (simp only: set_filter)
    then have "last ?ms \<in> set (entries_in_scan_order d)" "sim_match (last ?ms)"
      by blast+
    then have "captureText (spec_val (last ?ms)) = []"
      using empty by (auto simp: sim_match_def)
    then show ?thesis using False by (simp add: scanDevice_eq last_match_text_def)
  qed
  from buildPayload_no_text [OF this] checkEsim_answer [OF run call dev]
  show "\<exists>p. r = EsimAnswer p False \<and> found p \<and> simRaw p = None \<and> supportsEsim p = None \<and>
         message p = MSG_NO_SIM_DATA"
    by blast
qed

theorem falsy_sim_value_skipped_witness:
  "scanEntry (Some ''Nano-SIM'') (Some \<lparr>spec_name = Some ''eSIM'', spec_val = VAbsent\<rparr>)
     = Some ''Nano-SIM'' \<and>
   scanEntry (Some ''Nano-SIM'') (Some \<lparr>spec_name = Some ''eSIM'', spec_val = VStr []\<rparr>)
     = Some ''Nano-SIM'' \<and>
   (\<exists>p. fst (demo_run demo_device_empty_sims) = EsimAnswer p False \<and> found p \<and>
        simRaw p = None \<and> supportsEsim p = None \<and> message p = MSG_NO_SIM_DATA)"
proof -
  have empty: "\<forall>x \<in> set (entries_in_scan_order demo_device_empty_sims).
      name_contains_sim x \<longrightarrow> \<not> truthy_value (spec_val x) \<or> captureText (spec_val x) = []"
    by code_simp
  show ?thesis
    using falsy_sim_value_skipped
      [where simText = "Some ''Nano-SIM''"
         and s = "\<lparr>spec_name = Some ''eSIM'', spec_val = VStr ''x''\<rparr>"
         and st = init and e = "demo_env demo_device_empty_sims" and body = demo_body
         and r = "fst (demo_run demo_device_empty_sims)"
         and st' = "fst (snd (demo_run demo_device_empty_sims))"
         and calls = "snd (snd (demo_run demo_device_empty_sims))"
         and sid = "''apple_iphone_15-12559''" and d = demo_device_empty_sims]
      demo_run_split [of demo_device_empty_sims] demo_run_call [of demo_device_empty_sims]
      demo_dev [of demo_device_empty_sims] empty
    by (simp add: demo_run_def)
qed

end
